theory Spec2Isabelle
  imports Main "HOL-Library.AList"
begin

section \<open>The session broker: data model\<close>

text \<open>
  The broker verified here is the queueing server with the priority-tiered delivery
  engine (the third program of \<^verbatim>\<open>src/unnamed/part_000\<close>, its lines 294 to 721).

  Modelling decisions, each traceable to the source:
  \<^item> \<^verbatim>\<open>generateId()\<close> mixes the clock with a random number; the model draws identifiers
    from a counter \<open>nextId\<close>, so every identifier is fresh. Identifiers are non-empty
    strings in the source, hence truthy; a missing or ill-typed JSON field is \<open>None\<close>.
  \<^item> A JavaScript \<^verbatim>\<open>Map\<close> iterates in insertion order and \<^verbatim>\<open>set\<close> on a present key keeps
    its place: an association list with \<open>AList.update\<close> and \<open>AList.delete\<close>.
  \<^item> The chat key \<^verbatim>\<open>`${a}-${b}`\<close> is the pair \<open>(a, b)\<close>: generated identifiers are base-36
    text without a dash, so the concatenation determines both parts.
  \<^item> Every socket has the closure variable \<^verbatim>\<open>clientId\<close> and a \<^verbatim>\<open>readyState\<close>.
    \<^verbatim>\<open>ws.send\<close> on a socket that is not open drops the message (the best-effort
    contract of the transport); the transport's output is the log \<open>sent\<close>.
  \<^item> A queued \<^verbatim>\<open>chatStarted\<close> message holds a reference to the history array, and
    \<^verbatim>\<open>JSON.stringify\<close> runs when the message is written to the socket: a pending
    message carries a \<open>histref\<close>, resolved by \<open>serialize\<close> at sending time.
  \<^item> \<^verbatim>\<open>new Date().toISOString()\<close> is an input of the chat event.
\<close>

type_synonym cid = nat
type_synonym wsid = nat

datatype utype = Admin | User | OtherType string

datatype readyState = OPEN | CLOSING | CLOSED

record client =
  c_id :: cid
  c_ws :: wsid
  c_username :: string
  c_type :: utype

record conn =
  clientId :: "cid option"
  readyState :: readyState

record hentry =
  h_from :: string
  h_text :: string
  h_timestamp :: nat

type_synonym chatKey = "cid \<times> cid"

datatype histref = Fresh | Stored chatKey

datatype 'h msg =
    Welcome cid
  | ErrorMsg string
  | QueuePosition nat
  | UserList "(cid \<times> string \<times> utype \<times> bool) list"
  | ChatStarted cid string utype 'h
  | ChatMessage string string nat
  | StartVideoStreamMsg
  | StopVideoStreamMsg
  | ChatEnded "nat option"
  | VideoFrameMsg string cid

type_synonym pmsg = "histref msg"
type_synonym wmsg = "hentry list msg"

record state =
  conns :: "(wsid \<times> conn) list"
  clients :: "(cid \<times> client) list"
  adminClient :: "client option"
  userQueue :: "cid list"
  activeChats :: "(cid \<times> cid) list"
  chatHistory :: "(chatKey \<times> hentry list) list"
  messageQueues :: "(cid \<times> pmsg list) list"
  nextId :: nat
  sent :: "(wsid \<times> wmsg) list"

definition init :: state where
  "init = \<lparr>conns = [], clients = [], adminClient = None, userQueue = [], activeChats = [],
           chatHistory = [], messageQueues = [], nextId = 1, sent = []\<rparr>"

section \<open>Transport\<close>

definition isOpen :: "state \<Rightarrow> wsid \<Rightarrow> bool" where
  "isOpen s w = (case map_of (conns s) w of None \<Rightarrow> False | Some c \<Rightarrow> readyState c = OPEN)"

definition ws_send :: "wsid \<Rightarrow> wmsg \<Rightarrow> state \<Rightarrow> state" where
  "ws_send w m s = (if isOpen s w then s\<lparr>sent := sent s @ [(w, m)]\<rparr> else s)"

definition ws_close :: "wsid \<Rightarrow> state \<Rightarrow> state" where
  "ws_close w s =
     (case map_of (conns s) w of
        None \<Rightarrow> s
      | Some c \<Rightarrow> if readyState c = OPEN
                  then s\<lparr>conns := AList.update w (c\<lparr>readyState := CLOSING\<rparr>) (conns s)\<rparr>
                  else s)"

definition resolve :: "state \<Rightarrow> histref \<Rightarrow> hentry list" where
  "resolve s r =
     (case r of
        Fresh \<Rightarrow> []
      | Stored k \<Rightarrow> (case map_of (chatHistory s) k of None \<Rightarrow> [] | Some h \<Rightarrow> h))"

definition serialize :: "state \<Rightarrow> pmsg \<Rightarrow> wmsg" where
  "serialize s m = map_msg (resolve s) m"

fun priority :: "'h msg \<Rightarrow> bool" where
  "priority (ChatMessage f t ts) = True"
| "priority _ = False"

section \<open>Delivery engine\<close>

text \<open>
  \<^verbatim>\<open>sendToClient\<close> (lines 322 to 344): nothing happens unless the client is registered and
  its socket is open; a message with \<^verbatim>\<open>priority === true\<close> is written to the socket, any
  other message goes to the client's queue, from which the oldest element is shifted out
  first when the queue holds one or more.
\<close>

definition sendToClient :: "cid \<Rightarrow> pmsg \<Rightarrow> state \<Rightarrow> state" where
  "sendToClient cl message s =
     (case map_of (clients s) cl of
        None \<Rightarrow> s
      | Some client \<Rightarrow>
          if isOpen s (c_ws client) then
            if priority message then ws_send (c_ws client) (serialize s message) s
            else
              let queue = (case map_of (messageQueues s) cl of None \<Rightarrow> [] | Some q \<Rightarrow> q);
                  queue' = (if length queue \<ge> 1 then tl queue else queue)
              in s\<lparr>messageQueues := AList.update cl (queue' @ [message]) (messageQueues s)\<rparr>
          else s)"

text \<open>
  \<^verbatim>\<open>processMessageQueues\<close> (lines 347 to 355) visits every entry of \<^verbatim>\<open>messageQueues\<close>:
  \<open>flushMsg\<close> is the test and the message of one visit, \<open>flushQueue\<close> its effect (shift
  the queue, write to the socket). The callback changes no other entry's queue, so the
  fold runs over the entries as they are when the tick starts.
\<close>

definition flushMsg :: "state \<Rightarrow> cid \<Rightarrow> pmsg list \<Rightarrow> (wsid \<times> wmsg) option" where
  "flushMsg s cl queue =
     (case map_of (clients s) cl of
        None \<Rightarrow> None
      | Some client \<Rightarrow>
          if isOpen s (c_ws client) \<and> length queue > 0
          then Some (c_ws client, serialize s (hd queue))
          else None)"

definition flushQueue :: "state \<Rightarrow> cid \<times> pmsg list \<Rightarrow> state" where
  "flushQueue s e =
     (case flushMsg s (fst e) (snd e) of
        None \<Rightarrow> s
      | Some (w, m) \<Rightarrow>
          ws_send w m (s\<lparr>messageQueues := AList.update (fst e) (tl (snd e)) (messageQueues s)\<rparr>))"

definition processMessageQueues :: "state \<Rightarrow> state" where
  "processMessageQueues s = foldl flushQueue s (messageQueues s)"

section \<open>Pairing scheduler and relay\<close>

text \<open>
  \<^verbatim>\<open>updateUserList\<close> (lines 360 to 376) and \<^verbatim>\<open>updateQueue\<close> (lines 378 to 385). The
  \<^verbatim>\<open>forEach\<close> of \<open>updateQueue\<close> only calls \<open>sendToClient\<close>: it is \<open>sendAll\<close> over the list
  \<open>queuePositions\<close> of addressees and messages, in queue order.
\<close>

definition userListOf :: "state \<Rightarrow> (cid \<times> string \<times> utype \<times> bool) list" where
  "userListOf s =
     map (\<lambda>c. (c_id c, c_username c, c_type c, map_of (activeChats s) (c_id c) \<noteq> None))
         (filter (\<lambda>c. c_type c = User) (map snd (clients s)))"

definition updateUserList :: "state \<Rightarrow> state" where
  "updateUserList s =
     (case adminClient s of
        None \<Rightarrow> s
      | Some a \<Rightarrow> sendToClient (c_id a) (UserList (userListOf s)) s)"

definition queuePositions :: "cid list \<Rightarrow> (cid \<times> pmsg) list" where
  "queuePositions q = map (\<lambda>(userId, index). (userId, QueuePosition (index + 1))) (zip q [0..<length q])"

definition sendAll :: "(cid \<times> pmsg) list \<Rightarrow> state \<Rightarrow> state" where
  "sendAll ms s = foldl (\<lambda>s e. sendToClient (fst e) (snd e) s) s ms"

definition updateQueue :: "state \<Rightarrow> state" where
  "updateQueue s = sendAll (queuePositions (userQueue s)) s"

text \<open>
  The handlers of one connection (lines 387 to 656). \<open>senderId s w\<close> is the closure variable
  \<^verbatim>\<open>clientId\<close> of socket \<open>w\<close>; \<open>getClient\<close> is \<^verbatim>\<open>clients.get\<close> on a value that may be
  undefined. Each handler follows its source statement by statement.
\<close>

definition senderId :: "state \<Rightarrow> wsid \<Rightarrow> cid option" where
  "senderId s w = (case map_of (conns s) w of None \<Rightarrow> None | Some c \<Rightarrow> clientId c)"

definition getClient :: "state \<Rightarrow> cid option \<Rightarrow> client option" where
  "getClient s x = (case x of None \<Rightarrow> None | Some k \<Rightarrow> map_of (clients s) k)"

definition setClientId :: "wsid \<Rightarrow> cid \<Rightarrow> state \<Rightarrow> state" where
  "setClientId w k s =
     (case map_of (conns s) w of
        None \<Rightarrow> s
      | Some c \<Rightarrow> s\<lparr>conns := AList.update w (c\<lparr>clientId := Some k\<rparr>) (conns s)\<rparr>)"

definition handleJoin :: "wsid \<Rightarrow> string \<Rightarrow> utype \<Rightarrow> state \<Rightarrow> state" where
  "handleJoin w uname userType s =
     (let newId = nextId s;
          client = \<lparr>c_id = newId, c_ws = w, c_username = uname, c_type = userType\<rparr>;
          s1 = setClientId w newId (s\<lparr>nextId := Suc newId\<rparr>);
          s2 = s1\<lparr>clients := AList.update newId client (clients s1)\<rparr>;
          s3 = ws_send w (Welcome newId) s2
      in if userType = Admin then
           (case adminClient s3 of
              Some a \<Rightarrow> ws_close w (ws_send w (ErrorMsg ''An admin is already connected'') s3)
            | None \<Rightarrow> updateUserList (s3\<lparr>adminClient := Some client\<rparr>))
         else
           (case adminClient s3 of
              Some a \<Rightarrow> updateUserList (updateQueue (s3\<lparr>userQueue := userQueue s3 @ [newId]\<rparr>))
            | None \<Rightarrow> ws_send w (QueuePosition 0) s3))"

definition handleSelectUser :: "wsid \<Rightarrow> cid option \<Rightarrow> state \<Rightarrow> state" where
  "handleSelectUser w dataUserId s =
     (case adminClient s of
        None \<Rightarrow> s
      | Some admin \<Rightarrow>
         (case (senderId s w, getClient s (senderId s w)) of
            (Some fromId, Some sender) \<Rightarrow>
             if c_type sender \<noteq> Admin then s
             else
               (case (dataUserId, getClient s dataUserId) of
                  (Some userId, Some user) \<Rightarrow>
                    if c_type user \<noteq> User
                    then sendToClient fromId (ErrorMsg ''User not found'') s
                    else
                      let s1 = s\<lparr>userQueue := remove1 userId (userQueue s)\<rparr>;
                          s2 = s1\<lparr>activeChats := AList.update (c_id admin) userId
                                   (AList.update userId (c_id admin) (activeChats s1))\<rparr>;
                          chatKey = (c_id admin, userId);
                          messages = (case map_of (chatHistory s2) chatKey of
                                        None \<Rightarrow> Fresh | Some h \<Rightarrow> Stored chatKey);
                          s3 = sendToClient (c_id admin)
                                 (ChatStarted userId (c_username user) (c_type user) messages) s2;
                          s4 = sendToClient userId
                                 (ChatStarted (c_id admin) (c_username admin) (c_type admin) messages) s3
                      in updateUserList (updateQueue s4)
                | _ \<Rightarrow> sendToClient fromId (ErrorMsg ''User not found'') s)
          | _ \<Rightarrow> s))"

definition handleChatMessage :: "wsid \<Rightarrow> cid option \<Rightarrow> string \<Rightarrow> nat \<Rightarrow> state \<Rightarrow> state" where
  "handleChatMessage w dataTo text ts s =
     (case (senderId s w, getClient s (senderId s w)) of
        (Some fromId, Some fromClient) \<Rightarrow>
          (case (dataTo, getClient s dataTo) of
             (Some toId, Some toClient) \<Rightarrow>
               let message = \<lparr>h_from = c_username fromClient, h_text = text, h_timestamp = ts\<rparr>;
                   chatKey = (if c_type fromClient = Admin then (fromId, toId) else (toId, fromId));
                   old = (case map_of (chatHistory s) chatKey of None \<Rightarrow> [] | Some h \<Rightarrow> h);
                   s1 = s\<lparr>chatHistory := AList.update chatKey (old @ [message]) (chatHistory s)\<rparr>
               in sendToClient toId (ChatMessage (c_username fromClient) text ts) s1
           | _ \<Rightarrow> s)
      | _ \<Rightarrow> s)"

definition deleteChat :: "cid option \<Rightarrow> state \<Rightarrow> state" where
  "deleteChat x s = (case x of None \<Rightarrow> s | Some k \<Rightarrow> s\<lparr>activeChats := AList.delete k (activeChats s)\<rparr>)"

definition handleEndChat :: "wsid \<Rightarrow> cid option \<Rightarrow> state \<Rightarrow> state" where
  "handleEndChat w dataUserId s =
     (case (senderId s w, getClient s (senderId s w)) of
        (Some fromId, Some fromClient) \<Rightarrow>
          let otherUserId = (if c_type fromClient = Admin then dataUserId
                             else map_of (activeChats s) fromId);
              s1 = deleteChat otherUserId (deleteChat (Some fromId) s);
              s2 = (case (otherUserId, getClient s1 otherUserId) of
                      (Some other, Some otherClient) \<Rightarrow>
                        let s3 = sendToClient other StopVideoStreamMsg s1
                        in if c_type otherClient = User then
                             let s4 = s3\<lparr>userQueue := userQueue s3 @ [other]\<rparr>
                             in sendToClient other (ChatEnded (Some (length (userQueue s4)))) s4
                           else sendToClient other (ChatEnded None) s3
                    | _ \<Rightarrow> s1)
          in updateUserList (updateQueue s2)
      | _ \<Rightarrow> s)"

definition senderIsAdmin :: "state \<Rightarrow> wsid \<Rightarrow> bool" where
  "senderIsAdmin s w =
     (case getClient s (senderId s w) of None \<Rightarrow> False | Some c \<Rightarrow> c_type c = Admin)"

definition handleStartVideoStream :: "wsid \<Rightarrow> cid option \<Rightarrow> state \<Rightarrow> state" where
  "handleStartVideoStream w dataUserId s =
     (if \<not> senderIsAdmin s w then s
      else case dataUserId of None \<Rightarrow> s | Some userId \<Rightarrow> sendToClient userId StartVideoStreamMsg s)"

definition handleStopVideoStream :: "wsid \<Rightarrow> cid option \<Rightarrow> state \<Rightarrow> state" where
  "handleStopVideoStream w dataUserId s =
     (if \<not> senderIsAdmin s w then s
      else case dataUserId of None \<Rightarrow> s | Some userId \<Rightarrow> sendToClient userId StopVideoStreamMsg s)"

definition handleVideoFrame :: "wsid \<Rightarrow> cid option \<Rightarrow> string \<Rightarrow> state \<Rightarrow> state" where
  "handleVideoFrame w dataTo frame s =
     (case (senderId s w, getClient s (senderId s w)) of
        (Some fromId, Some fromClient) \<Rightarrow>
          if c_type fromClient \<noteq> User then s
          else (case (dataTo, getClient s dataTo) of
                  (Some toId, Some toClient) \<Rightarrow> sendToClient toId (VideoFrameMsg frame fromId) s
                | _ \<Rightarrow> s)
      | _ \<Rightarrow> s)"

text \<open>
  \<^verbatim>\<open>handleDisconnect\<close> (lines 658 to 714). The two loops of the operator branch only call
  \<open>sendToClient\<close>: \<open>endedMsgs\<close> lists what the loop over \<^verbatim>\<open>activeChats\<close> sends and
  \<open>resetMsgs\<close> what the loop over \<^verbatim>\<open>clients\<close> sends, in iteration order.
\<close>

definition endedMsgs :: "cid \<Rightarrow> (cid \<times> cid) list \<Rightarrow> (cid \<times> pmsg) list" where
  "endedMsgs cl chats =
     concat (map (\<lambda>(userId, partnerId).
                    if userId \<noteq> cl then [(userId, StopVideoStreamMsg), (userId, ChatEnded None)]
                    else []) chats)"

definition resetMsgs :: "cid \<Rightarrow> (cid \<times> client) list \<Rightarrow> (cid \<times> pmsg) list" where
  "resetMsgs cl cs =
     concat (map (\<lambda>(k, c). if c_type c = User \<and> k \<noteq> cl then [(k, QueuePosition 0)] else []) cs)"

definition handleDisconnect :: "cid option \<Rightarrow> state \<Rightarrow> state" where
  "handleDisconnect x s =
     (case (x, getClient s x) of
        (Some cl, Some client) \<Rightarrow>
          let s1 = s\<lparr>messageQueues := AList.delete cl (messageQueues s)\<rparr>;
              s2 = (if c_type client = Admin then
                      let sA = s1\<lparr>adminClient := None\<rparr>;
                          sB = sendAll (endedMsgs cl (activeChats sA)) sA;
                          sC = sB\<lparr>activeChats := [], userQueue := []\<rparr>
                      in sendAll (resetMsgs cl (clients sC)) sC
                    else
                      let sA = (if cl \<in> set (userQueue s1)
                                then updateQueue (s1\<lparr>userQueue := remove1 cl (userQueue s1)\<rparr>)
                                else s1);
                          sB = (case map_of (activeChats sA) cl of
                                  None \<Rightarrow> sA
                                | Some partnerId \<Rightarrow>
                                    sendToClient partnerId (ChatEnded None)
                                      (deleteChat (Some partnerId) (deleteChat (Some cl) sA)))
                      in updateUserList sB)
          in s2\<lparr>clients := AList.delete cl (clients s2)\<rparr>
      | _ \<Rightarrow> s)"

section \<open>Events\<close>

text \<open>
  What happens to the broker: a socket connects, a parsed message arrives on a socket that
  is not yet closed, a socket starts closing (it is no longer open, and its close event
  has not fired yet), the close event fires, the 50 ms timer ticks. An unparseable payload
  changes nothing and is not an event. \<open>run\<close> is the state after a sequence of events.
\<close>

datatype inmsg =
    Join string utype
  | SelectUser "cid option"
  | Message "cid option" string nat
  | EndChat "cid option"
  | StartVideoStream "cid option"
  | StopVideoStream "cid option"
  | VideoFrame "cid option" string
  | UnknownType

datatype event = Connect wsid | Recv wsid inmsg | Closing wsid | Close wsid | Tick

fun handleMessage :: "wsid \<Rightarrow> inmsg \<Rightarrow> state \<Rightarrow> state" where
  "handleMessage w (Join uname userType) s = handleJoin w uname userType s"
| "handleMessage w (SelectUser u) s = handleSelectUser w u s"
| "handleMessage w (Message to text ts) s = handleChatMessage w to text ts s"
| "handleMessage w (EndChat u) s = handleEndChat w u s"
| "handleMessage w (StartVideoStream u) s = handleStartVideoStream w u s"
| "handleMessage w (StopVideoStream u) s = handleStopVideoStream w u s"
| "handleMessage w (VideoFrame to frame) s = handleVideoFrame w to frame s"
| "handleMessage w UnknownType s = s"

definition setReadyState :: "wsid \<Rightarrow> readyState \<Rightarrow> state \<Rightarrow> state" where
  "setReadyState w r s =
     (case map_of (conns s) w of
        None \<Rightarrow> s
      | Some c \<Rightarrow> s\<lparr>conns := AList.update w (c\<lparr>readyState := r\<rparr>) (conns s)\<rparr>)"

definition live :: "state \<Rightarrow> wsid \<Rightarrow> bool" where
  "live s w = (case map_of (conns s) w of None \<Rightarrow> False | Some c \<Rightarrow> readyState c \<noteq> CLOSED)"

fun step :: "state \<Rightarrow> event \<Rightarrow> state" where
  "step s (Connect w) =
     (case map_of (conns s) w of
        None \<Rightarrow> s\<lparr>conns := AList.update w \<lparr>clientId = None, readyState = OPEN\<rparr> (conns s)\<rparr>
      | Some c \<Rightarrow> s)"
| "step s (Recv w m) = (if live s w then handleMessage w m s else s)"
| "step s (Closing w) = (if live s w then setReadyState w CLOSING s else s)"
| "step s (Close w) =
     (if live s w then handleDisconnect (senderId s w) (setReadyState w CLOSED s) else s)"
| "step s Tick = processMessageQueues s"

definition run :: "event list \<Rightarrow> state" where
  "run es = foldl step init es"

section \<open>Auxiliary definitions\<close>

text \<open>
  Invariants, abstractions of handler effects, the event sequences of the queue invariant,
  and the concrete states and event sequences at which the theorems below are evaluated.
  \<open>qlist_ok\<close>: the queue map has distinct keys and every queue holds at most one message.
  \<open>reg_ok\<close>: every registry key is an identifier already issued and is the identifier of
  its entry; \<^verbatim>\<open>adminClient\<close> is a registered entry of the operator role.
\<close>

definition closing_state :: state where
  "closing_state = run [Connect 0, Recv 0 (Join ''op'' Admin), Closing 0]"

definition qlist_ok :: "(cid \<times> pmsg list) list \<Rightarrow> bool" where
  "qlist_ok mq = (distinct (map fst mq) \<and> list_all (\<lambda>e. length (snd e) \<le> 1) mq)"

definition reg_ok :: "state \<Rightarrow> bool" where
  "reg_ok s = ((\<forall>k c. map_of (clients s) k = Some c \<longrightarrow> k < nextId s \<and> c_id c = k)
             \<and> (\<forall>a. adminClient s = Some a \<longrightarrow> map_of (clients s) (c_id a) = Some a \<and> c_type a = Admin))"

definition queued_state :: state where
  "queued_state = run [Connect 0, Recv 0 (Join ''op'' Admin), Connect 1, Recv 1 (Join ''b'' User),
                       Connect 2, Recv 2 (Join ''c'' User)]"

definition two_frames :: state where
  "two_frames = run [Connect 0, Recv 0 (Join ''op'' Admin), Connect 1, Recv 1 (Join ''b'' User), Tick]"


definition reselect_trace :: "event list" where
  "reselect_trace =
     [Connect 0, Recv 0 (Join ''op'' Admin), Connect 1, Recv 1 (Join ''b'' User),
      Connect 2, Recv 2 (Join ''c'' User),
      Recv 0 (SelectUser (Some 2)), Recv 0 (SelectUser (Some 3))]"

definition two_operators_trace :: "event list" where
  "two_operators_trace =
     [Connect 0, Recv 0 (Join ''op'' Admin), Connect 1, Recv 1 (Join ''op2'' Admin), Close 1,
      Connect 2, Recv 2 (Join ''op3'' Admin)]"

definition stale_operator_trace :: "event list" where
  "stale_operator_trace =
     two_operators_trace @ [Connect 3, Recv 3 (Join ''b'' User), Recv 0 (SelectUser (Some 4))]"

definition operator_leaves_trace :: "event list" where
  "operator_leaves_trace =
     [Connect 0, Recv 0 (Join ''op'' Admin), Connect 1, Recv 1 (Join ''b'' User),
      Connect 2, Recv 2 (Join ''c'' User), Tick,
      Recv 0 (SelectUser (Some 2)), Tick, Close 0, Tick, Tick]"

definition repair_trace :: "event list" where
  "repair_trace =
     [Connect 0, Recv 0 (Join ''op'' Admin), Connect 1, Recv 1 (Join ''b'' User), Tick,
      Recv 0 (SelectUser (Some 2)), Tick,
      Recv 1 (Message (Some 1) ''hi'' 7), Recv 0 (Message (Some 2) ''yo'' 8),
      Recv 0 (EndChat (Some 2)), Tick, Recv 0 (SelectUser (Some 2)), Tick, Tick]"

definition rejected_operator_trace :: "event list" where
  "rejected_operator_trace =
     [Connect 0, Recv 0 (Join ''op'' Admin), Connect 1, Recv 1 (Join ''b'' User), Tick,
      Connect 2, Recv 2 (Join ''op2'' Admin)]"

definition duplicate_position_trace :: "event list" where
  "duplicate_position_trace =
     [Connect 0, Recv 0 (Join ''op'' Admin), Connect 1, Recv 1 (Join ''b'' User), Tick,
      Recv 0 (EndChat (Some 2)), Tick]"

definition endchat_queued_trace :: "event list" where
  "endchat_queued_trace =
     [Connect 0, Recv 0 (Join ''op'' Admin), Connect 1, Recv 1 (Join ''b'' User),
      Recv 0 (EndChat (Some 2))]"

definition late_operator_trace :: "event list" where
  "late_operator_trace =
     [Connect 0, Recv 0 (Join ''b'' User), Connect 1, Recv 1 (Join ''op'' Admin)]"

text \<open>
  \<open>selectTarget\<close> is the guard of \<open>handleSelectUser\<close>: the operator and the participant it
  pairs, when the message passes every check. \<open>endOther\<close> is the sender of an
  \<^verbatim>\<open>endChat\<close> with the \<^verbatim>\<open>otherUserId\<close> the handler computes, and \<open>requeued\<close> what the
  handler then appends to the waiting queue. \<open>endchat_ok\<close> rules out one event: an
  \<^verbatim>\<open>endChat\<close> from a connection of the operator role that re-queues a participant who is
  already queued, or does so when no operator is registered.
\<close>

definition ctype :: "state \<Rightarrow> cid \<Rightarrow> utype option" where
  "ctype s k = map_option c_type (map_of (clients s) k)"

definition selectTarget :: "state \<Rightarrow> wsid \<Rightarrow> cid option \<Rightarrow> (cid \<times> cid) option" where
  "selectTarget s w u =
     (case adminClient s of
        None \<Rightarrow> None
      | Some admin \<Rightarrow>
          (case (senderId s w, getClient s (senderId s w)) of
             (Some fromId, Some sender) \<Rightarrow>
               if c_type sender \<noteq> Admin then None
               else (case (u, getClient s u) of
                       (Some userId, Some user) \<Rightarrow>
                         if c_type user \<noteq> User then None else Some (c_id admin, userId)
                     | _ \<Rightarrow> None)
           | _ \<Rightarrow> None))"

definition endOther :: "state \<Rightarrow> wsid \<Rightarrow> cid option \<Rightarrow> (cid \<times> cid option) option" where
  "endOther s w u =
     (case (senderId s w, getClient s (senderId s w)) of
        (Some fromId, Some fromClient) \<Rightarrow>
          Some (fromId, if c_type fromClient = Admin then u else map_of (activeChats s) fromId)
      | _ \<Rightarrow> None)"

definition requeued :: "state \<Rightarrow> cid option \<Rightarrow> cid list" where
  "requeued s other = (case other of None \<Rightarrow> [] | Some x \<Rightarrow> if ctype s x = Some User then [x] else [])"

fun endchat_ok :: "state \<Rightarrow> event \<Rightarrow> bool" where
  "endchat_ok s (Recv w (EndChat u)) =
     (if live s w \<and> senderIsAdmin s w \<and> requeued s u \<noteq> []
      then adminClient s \<noteq> None \<and> \<not> list_ex (\<lambda>x. x \<in> set (userQueue s)) (requeued s u)
      else True)"
| "endchat_ok s e = True"

fun guarded :: "state \<Rightarrow> event list \<Rightarrow> bool" where
  "guarded s [] = True"
| "guarded s (e # es) = (endchat_ok s e \<and> guarded (step s e) es)"

definition queue_ok :: "state \<Rightarrow> bool" where
  "queue_ok s =
     (distinct (userQueue s)
      \<and> (\<forall>q \<in> set (userQueue s). (\<exists>t. ctype s q = Some t \<and> t \<noteq> Admin)
                                   \<and> map_of (activeChats s) q = None)
      \<and> (userQueue s \<noteq> [] \<longrightarrow> adminClient s \<noteq> None)
      \<and> (\<forall>k v. map_of (activeChats s) k = Some v \<longrightarrow>
             k < nextId s \<and> v < nextId s \<and> (ctype s k = Some Admin \<or> ctype s v \<noteq> Some User)))"

definition requeue_trace :: "event list" where
  "requeue_trace =
     [Connect 0, Recv 0 (Join ''op'' Admin), Connect 1, Recv 1 (Join ''b'' User),
      Connect 2, Recv 2 (Join ''c'' User),
      Recv 0 (SelectUser (Some 2)), Recv 0 (EndChat (Some 2))]"

definition history :: "state \<Rightarrow> chatKey \<Rightarrow> hentry list" where
  "history s k = (case map_of (chatHistory s) k of None \<Rightarrow> [] | Some h \<Rightarrow> h)"

section \<open>Frame lemmas\<close>

lemma ws_send_fields [simp]:
  "conns (ws_send w m s) = conns s"
  "clients (ws_send w m s) = clients s"
  "adminClient (ws_send w m s) = adminClient s"
  "userQueue (ws_send w m s) = userQueue s"
  "activeChats (ws_send w m s) = activeChats s"
  "chatHistory (ws_send w m s) = chatHistory s"
  "messageQueues (ws_send w m s) = messageQueues s"
  "nextId (ws_send w m s) = nextId s"
  by (simp_all add: ws_send_def)

lemma sendToClient_fields [simp]:
  "conns (sendToClient k m s) = conns s"
  "clients (sendToClient k m s) = clients s"
  "adminClient (sendToClient k m s) = adminClient s"
  "userQueue (sendToClient k m s) = userQueue s"
  "activeChats (sendToClient k m s) = activeChats s"
  "chatHistory (sendToClient k m s) = chatHistory s"
  "nextId (sendToClient k m s) = nextId s"
  by (simp_all add: sendToClient_def Let_def split: option.splits)

lemma isOpen_cong: "conns s' = conns s \<Longrightarrow> isOpen s' w = isOpen s w"
  by (simp add: isOpen_def)

lemma isOpen_sendToClient [simp]: "isOpen (sendToClient k m s) w = isOpen s w"
  by (simp add: isOpen_def)

lemma isOpen_ws_send [simp]: "isOpen (ws_send w' m s) w = isOpen s w"
  by (simp add: isOpen_def)

lemma sendAll_Nil [simp]: "sendAll [] s = s"
  by (simp add: sendAll_def)

lemma sendAll_Cons [simp]: "sendAll (e # ms) s = sendAll ms (sendToClient (fst e) (snd e) s)"
  by (simp add: sendAll_def)

lemma sendAll_append [simp]: "sendAll (xs @ ys) s = sendAll ys (sendAll xs s)"
  by (simp add: sendAll_def)

lemma sendAll_fields [simp]:
  "conns (sendAll ms s) = conns s"
  "clients (sendAll ms s) = clients s"
  "adminClient (sendAll ms s) = adminClient s"
  "userQueue (sendAll ms s) = userQueue s"
  "activeChats (sendAll ms s) = activeChats s"
  "chatHistory (sendAll ms s) = chatHistory s"
  "nextId (sendAll ms s) = nextId s"
  by (induction ms arbitrary: s; simp)+

lemma updateQueue_fields [simp]:
  "conns (updateQueue s) = conns s"
  "clients (updateQueue s) = clients s"
  "adminClient (updateQueue s) = adminClient s"
  "userQueue (updateQueue s) = userQueue s"
  "activeChats (updateQueue s) = activeChats s"
  "chatHistory (updateQueue s) = chatHistory s"
  "nextId (updateQueue s) = nextId s"
  by (simp_all add: updateQueue_def)

lemma updateUserList_fields [simp]:
  "conns (updateUserList s) = conns s"
  "clients (updateUserList s) = clients s"
  "adminClient (updateUserList s) = adminClient s"
  "userQueue (updateUserList s) = userQueue s"
  "activeChats (updateUserList s) = activeChats s"
  "chatHistory (updateUserList s) = chatHistory s"
  "nextId (updateUserList s) = nextId s"
  by (simp_all add: updateUserList_def split: option.splits)

lemma sendToClient_noop:
  "map_of (clients s) k = None \<Longrightarrow> sendToClient k m s = s"
  "map_of (clients s) k = Some c \<Longrightarrow> \<not> isOpen s (c_ws c) \<Longrightarrow> sendToClient k m s = s"
  by (simp_all add: sendToClient_def)

lemma flushMsg_noop:
  "map_of (clients s) k = None \<Longrightarrow> flushMsg s k q = None"
  "map_of (clients s) k = Some c \<Longrightarrow> \<not> isOpen s (c_ws c) \<Longrightarrow> flushMsg s k q = None"
  by (simp_all add: flushMsg_def)

text \<open>
  Claim C10. A send addressed to a connection that is absent from the registry, or whose
  socket is not open, changes nothing: the state is the same, so nothing is put in the
  pending slot and nothing is written to a socket, and a tick hands nothing to that
  connection whatever its slot holds.
\<close>

theorem lowprio_send_unreachable_noop:
  assumes "map_of (clients s) k = None \<or> (\<exists>c. map_of (clients s) k = Some c \<and> \<not> isOpen s (c_ws c))"
  shows "sendToClient k m s = s
       \<and> messageQueues (sendToClient k m s) = messageQueues s
       \<and> sent (sendToClient k m s) = sent s
       \<and> flushMsg (sendToClient k m s) k q = None"
  using assms by (auto simp: sendToClient_noop flushMsg_noop)

lemma closing_state_eval: "map_of (clients closing_state) 1 = Some \<lparr>c_id = 1, c_ws = 0, c_username = ''op'', c_type = Admin\<rparr> \<and> \<not> isOpen closing_state 0"
  unfolding closing_state_def by code_simp

theorem lowprio_send_unreachable_noop_witness:
  "sendToClient 1 (VideoFrameMsg ''f'' 2) closing_state = closing_state
   \<and> flushMsg (sendToClient 1 (VideoFrameMsg ''f'' 2) closing_state) 1 [VideoFrameMsg ''f'' 2] = None"
proof -
  have h: "map_of (clients closing_state) 1 = None
           \<or> (\<exists>c. map_of (clients closing_state) 1 = Some c \<and> \<not> isOpen closing_state (c_ws c))"
    using closing_state_eval by simp
  from lowprio_send_unreachable_noop [OF h] show ?thesis by blast
qed

text \<open>
  The role test of \<open>handleSelectUser\<close>: a \<^verbatim>\<open>selectUser\<close> message from a connection whose
  registry entry does not have the operator role, or that has no registry entry, leaves
  the whole broker state as it was, the transport log included. (A connection can have
  the operator role in the registry without being the registered operator: the rejected
  joiner of the section on departures from the specification.)
\<close>

theorem selectUser_unauthorised_ignored:
  assumes "\<not> senderIsAdmin s w"
  shows "step s (Recv w (SelectUser u)) = s \<and> sent (step s (Recv w (SelectUser u))) = sent s"
  using assms
  by (auto simp: handleSelectUser_def senderIsAdmin_def split: option.splits)

theorem selectUser_unauthorised_ignored_witness:
  "\<not> senderIsAdmin queued_state 1
   \<and> step queued_state (Recv 1 (SelectUser (Some 2))) = queued_state"
proof -
  have h: "\<not> senderIsAdmin queued_state 1" unfolding queued_state_def by code_simp
  from selectUser_unauthorised_ignored [OF h] h show ?thesis by blast
qed

section \<open>Invariant: every pending queue holds at most one message\<close>

lemma run_Nil [simp]: "run [] = init"
  by (simp add: run_def)

lemma run_snoc [simp]: "run (es @ [e]) = step (run es) e"
  by (simp add: run_def)

lemma run_invariant:
  assumes "P init" and "\<And>s e. P s \<Longrightarrow> P (step s e)"
  shows "P (run es)"
  using assms by (induction es rule: rev_induct) simp_all

lemma list_all_update:
  "list_all P al \<Longrightarrow> P (k, v) \<Longrightarrow> list_all P (AList.update k v al)"
  by (induction al) auto

lemma list_all_delete: "list_all P al \<Longrightarrow> list_all P (AList.delete k al)"
  by (induction al) auto

lemma qlist_ok_update: "qlist_ok mq \<Longrightarrow> length q \<le> 1 \<Longrightarrow> qlist_ok (AList.update k q mq)"
  by (simp add: qlist_ok_def distinct_update list_all_update)

lemma qlist_ok_delete: "qlist_ok mq \<Longrightarrow> qlist_ok (AList.delete k mq)"
  by (simp add: qlist_ok_def distinct_delete list_all_delete)

lemma qlist_ok_lookup: "qlist_ok mq \<Longrightarrow> map_of mq k = Some q \<Longrightarrow> length q \<le> 1"
  by (auto simp: qlist_ok_def list_all_iff dest!: map_of_SomeD)

lemma slot_length: "length q \<le> 1 \<Longrightarrow> length ((if length q \<ge> 1 then tl q else q) @ [m]) \<le> 1"
  by (cases q) auto

lemma qlist_ok_sendToClient [simp]:
  "qlist_ok (messageQueues s) \<Longrightarrow> qlist_ok (messageQueues (sendToClient k m s))"
proof -
  assume ok: "qlist_ok (messageQueues s)"
  have "length (case map_of (messageQueues s) k of None \<Rightarrow> [] | Some q \<Rightarrow> q) \<le> 1"
    using ok by (auto split: option.splits dest: qlist_ok_lookup)
  from slot_length [OF this] ok show ?thesis
    by (simp add: sendToClient_def Let_def qlist_ok_update split: option.splits)
qed

lemma qlist_ok_sendAll [simp]:
  "qlist_ok (messageQueues s) \<Longrightarrow> qlist_ok (messageQueues (sendAll ms s))"
  by (induction ms arbitrary: s) simp_all

lemma qlist_ok_updateQueue [simp]:
  "qlist_ok (messageQueues s) \<Longrightarrow> qlist_ok (messageQueues (updateQueue s))"
  by (simp add: updateQueue_def)

lemma qlist_ok_updateUserList [simp]:
  "qlist_ok (messageQueues s) \<Longrightarrow> qlist_ok (messageQueues (updateUserList s))"
  by (simp add: updateUserList_def split: option.splits)

lemma conn_only_fields [simp]:
  "clients (setClientId w k s) = clients s"
  "adminClient (setClientId w k s) = adminClient s"
  "userQueue (setClientId w k s) = userQueue s"
  "activeChats (setClientId w k s) = activeChats s"
  "chatHistory (setClientId w k s) = chatHistory s"
  "messageQueues (setClientId w k s) = messageQueues s"
  "nextId (setClientId w k s) = nextId s"
  "sent (setClientId w k s) = sent s"
  "clients (ws_close w s) = clients s"
  "adminClient (ws_close w s) = adminClient s"
  "userQueue (ws_close w s) = userQueue s"
  "activeChats (ws_close w s) = activeChats s"
  "chatHistory (ws_close w s) = chatHistory s"
  "messageQueues (ws_close w s) = messageQueues s"
  "nextId (ws_close w s) = nextId s"
  "sent (ws_close w s) = sent s"
  "clients (setReadyState w r s) = clients s"
  "adminClient (setReadyState w r s) = adminClient s"
  "userQueue (setReadyState w r s) = userQueue s"
  "activeChats (setReadyState w r s) = activeChats s"
  "chatHistory (setReadyState w r s) = chatHistory s"
  "messageQueues (setReadyState w r s) = messageQueues s"
  "nextId (setReadyState w r s) = nextId s"
  "sent (setReadyState w r s) = sent s"
  by (simp_all add: setClientId_def ws_close_def setReadyState_def split: option.splits)

lemma deleteChat_fields [simp]:
  "conns (deleteChat x s) = conns s"
  "clients (deleteChat x s) = clients s"
  "adminClient (deleteChat x s) = adminClient s"
  "userQueue (deleteChat x s) = userQueue s"
  "chatHistory (deleteChat x s) = chatHistory s"
  "messageQueues (deleteChat x s) = messageQueues s"
  "nextId (deleteChat x s) = nextId s"
  "sent (deleteChat x s) = sent s"
  by (simp_all add: deleteChat_def split: option.splits)

lemma qlist_ok_handleJoin:
  "qlist_ok (messageQueues s) \<Longrightarrow> qlist_ok (messageQueues (handleJoin w n t s))"
  by (simp add: handleJoin_def Let_def split: option.splits)

lemma qlist_ok_handleSelectUser:
  "qlist_ok (messageQueues s) \<Longrightarrow> qlist_ok (messageQueues (handleSelectUser w u s))"
  by (simp add: handleSelectUser_def Let_def split: option.splits)

lemma qlist_ok_handleChatMessage:
  "qlist_ok (messageQueues s) \<Longrightarrow> qlist_ok (messageQueues (handleChatMessage w u t ts s))"
  by (simp add: handleChatMessage_def Let_def split: option.splits)

lemma qlist_ok_handleEndChat:
  "qlist_ok (messageQueues s) \<Longrightarrow> qlist_ok (messageQueues (handleEndChat w u s))"
  by (simp add: handleEndChat_def Let_def split: option.splits)

lemma qlist_ok_handleVideo:
  "qlist_ok (messageQueues s) \<Longrightarrow> qlist_ok (messageQueues (handleStartVideoStream w u s))"
  "qlist_ok (messageQueues s) \<Longrightarrow> qlist_ok (messageQueues (handleStopVideoStream w u s))"
  "qlist_ok (messageQueues s) \<Longrightarrow> qlist_ok (messageQueues (handleVideoFrame w u f s))"
  by (simp_all add: handleStartVideoStream_def handleStopVideoStream_def handleVideoFrame_def
        split: option.splits)

lemma qlist_ok_handleDisconnect:
  "qlist_ok (messageQueues s) \<Longrightarrow> qlist_ok (messageQueues (handleDisconnect x s))"
  by (simp add: handleDisconnect_def Let_def qlist_ok_delete split: option.splits)

lemma qlist_ok_flushQueue:
  "qlist_ok (messageQueues s) \<Longrightarrow> length (snd e) \<le> 1 \<Longrightarrow> qlist_ok (messageQueues (flushQueue s e))"
  by (auto simp: flushQueue_def split: option.splits intro!: qlist_ok_update)

lemma qlist_ok_flush_all:
  "qlist_ok (messageQueues s) \<Longrightarrow> list_all (\<lambda>e. length (snd e) \<le> 1) es
   \<Longrightarrow> qlist_ok (messageQueues (foldl flushQueue s es))"
  by (induction es arbitrary: s) (simp_all add: qlist_ok_flushQueue)

lemma qlist_ok_processMessageQueues:
  "qlist_ok (messageQueues s) \<Longrightarrow> qlist_ok (messageQueues (processMessageQueues s))"
  unfolding processMessageQueues_def
  by (rule qlist_ok_flush_all) (simp_all add: qlist_ok_def)

lemma qlist_ok_step: "qlist_ok (messageQueues s) \<Longrightarrow> qlist_ok (messageQueues (step s e))"
proof (cases e)
  case (Recv w m)
  assume "qlist_ok (messageQueues s)"
  then show ?thesis using Recv
    by (cases m)
       (simp_all add: qlist_ok_handleJoin qlist_ok_handleSelectUser qlist_ok_handleChatMessage
          qlist_ok_handleEndChat qlist_ok_handleVideo)
qed (simp_all add: qlist_ok_handleDisconnect qlist_ok_processMessageQueues split: option.splits)

lemma qlist_ok_run: "qlist_ok (messageQueues (run es))"
proof (rule run_invariant)
  show "qlist_ok (messageQueues init)" by (simp add: init_def qlist_ok_def)
qed (rule qlist_ok_step)

section \<open>Invariant: the registry and the operator slot\<close>

lemma flushQueue_fields [simp]:
  "conns (flushQueue s e) = conns s"
  "clients (flushQueue s e) = clients s"
  "adminClient (flushQueue s e) = adminClient s"
  "userQueue (flushQueue s e) = userQueue s"
  "activeChats (flushQueue s e) = activeChats s"
  "chatHistory (flushQueue s e) = chatHistory s"
  "nextId (flushQueue s e) = nextId s"
  by (simp_all add: flushQueue_def split: option.splits)

lemma flush_all_fields [simp]:
  "conns (foldl flushQueue s es) = conns s"
  "clients (foldl flushQueue s es) = clients s"
  "adminClient (foldl flushQueue s es) = adminClient s"
  "userQueue (foldl flushQueue s es) = userQueue s"
  "activeChats (foldl flushQueue s es) = activeChats s"
  "chatHistory (foldl flushQueue s es) = chatHistory s"
  "nextId (foldl flushQueue s es) = nextId s"
  by (induction es arbitrary: s; simp)+

lemma processMessageQueues_fields [simp]:
  "conns (processMessageQueues s) = conns s"
  "clients (processMessageQueues s) = clients s"
  "adminClient (processMessageQueues s) = adminClient s"
  "userQueue (processMessageQueues s) = userQueue s"
  "activeChats (processMessageQueues s) = activeChats s"
  "chatHistory (processMessageQueues s) = chatHistory s"
  "nextId (processMessageQueues s) = nextId s"
  by (simp_all add: processMessageQueues_def)

lemma handleSelectUser_reg [simp]:
  "clients (handleSelectUser w u s) = clients s"
  "adminClient (handleSelectUser w u s) = adminClient s"
  "nextId (handleSelectUser w u s) = nextId s"
  "chatHistory (handleSelectUser w u s) = chatHistory s"
  "conns (handleSelectUser w u s) = conns s"
  by (simp_all add: handleSelectUser_def Let_def split: option.splits)

lemma handleChatMessage_reg [simp]:
  "clients (handleChatMessage w u t ts s) = clients s"
  "adminClient (handleChatMessage w u t ts s) = adminClient s"
  "nextId (handleChatMessage w u t ts s) = nextId s"
  "userQueue (handleChatMessage w u t ts s) = userQueue s"
  "activeChats (handleChatMessage w u t ts s) = activeChats s"
  "conns (handleChatMessage w u t ts s) = conns s"
  by (simp_all add: handleChatMessage_def Let_def split: option.splits)

lemma handleEndChat_reg [simp]:
  "clients (handleEndChat w u s) = clients s"
  "adminClient (handleEndChat w u s) = adminClient s"
  "nextId (handleEndChat w u s) = nextId s"
  "chatHistory (handleEndChat w u s) = chatHistory s"
  "conns (handleEndChat w u s) = conns s"
  by (simp_all add: handleEndChat_def Let_def split: option.splits)

lemma handleVideo_reg [simp]:
  "clients (handleStartVideoStream w u s) = clients s"
  "adminClient (handleStartVideoStream w u s) = adminClient s"
  "nextId (handleStartVideoStream w u s) = nextId s"
  "userQueue (handleStartVideoStream w u s) = userQueue s"
  "activeChats (handleStartVideoStream w u s) = activeChats s"
  "chatHistory (handleStartVideoStream w u s) = chatHistory s"
  "conns (handleStartVideoStream w u s) = conns s"
  "clients (handleStopVideoStream w u s) = clients s"
  "adminClient (handleStopVideoStream w u s) = adminClient s"
  "nextId (handleStopVideoStream w u s) = nextId s"
  "userQueue (handleStopVideoStream w u s) = userQueue s"
  "activeChats (handleStopVideoStream w u s) = activeChats s"
  "chatHistory (handleStopVideoStream w u s) = chatHistory s"
  "conns (handleStopVideoStream w u s) = conns s"
  "clients (handleVideoFrame w u f s) = clients s"
  "adminClient (handleVideoFrame w u f s) = adminClient s"
  "nextId (handleVideoFrame w u f s) = nextId s"
  "userQueue (handleVideoFrame w u f s) = userQueue s"
  "activeChats (handleVideoFrame w u f s) = activeChats s"
  "chatHistory (handleVideoFrame w u f s) = chatHistory s"
  "conns (handleVideoFrame w u f s) = conns s"
  by (simp_all add: handleStartVideoStream_def handleStopVideoStream_def handleVideoFrame_def
        split: option.splits)

lemma reg_ok_cong:
  "reg_ok s \<Longrightarrow> clients s' = clients s \<Longrightarrow> adminClient s' = adminClient s \<Longrightarrow> nextId s' = nextId s
   \<Longrightarrow> reg_ok s'"
  by (simp add: reg_ok_def)

lemma handleJoin_reg:
  "clients (handleJoin w n t s) =
     AList.update (nextId s) \<lparr>c_id = nextId s, c_ws = w, c_username = n, c_type = t\<rparr> (clients s)"
  "nextId (handleJoin w n t s) = Suc (nextId s)"
  "adminClient (handleJoin w n t s) =
     (if t = Admin \<and> adminClient s = None
      then Some \<lparr>c_id = nextId s, c_ws = w, c_username = n, c_type = t\<rparr> else adminClient s)"
  by (simp_all add: handleJoin_def Let_def split: option.splits)

lemma reg_okD:
  "reg_ok s \<Longrightarrow> map_of (clients s) k = Some c \<Longrightarrow> k < nextId s"
  "reg_ok s \<Longrightarrow> map_of (clients s) k = Some c \<Longrightarrow> c_id c = k"
  "reg_ok s \<Longrightarrow> adminClient s = Some a \<Longrightarrow> map_of (clients s) (c_id a) = Some a"
  "reg_ok s \<Longrightarrow> adminClient s = Some a \<Longrightarrow> c_type a = Admin"
  by (simp_all add: reg_ok_def)

lemma reg_ok_handleJoin:
  assumes ok: "reg_ok s"
  shows "reg_ok (handleJoin w n t s)"
proof -
  let ?c = "\<lparr>c_id = nextId s, c_ws = w, c_username = n, c_type = t\<rparr>"
  let ?s' = "handleJoin w n t s"
  have 1: "k < nextId ?s' \<and> c_id c = k" if "map_of (clients ?s') k = Some c" for k c
  proof (cases "k = nextId s")
    case True
    with that have "c = ?c" by (simp add: handleJoin_reg update_conv')
    with True show ?thesis by (simp add: handleJoin_reg)
  next
    case False
    with that have "map_of (clients s) k = Some c" by (simp add: handleJoin_reg update_conv')
    with reg_okD(1,2) [OF ok this] show ?thesis by (simp add: handleJoin_reg)
  qed
  have 2: "map_of (clients ?s') (c_id a) = Some a \<and> c_type a = Admin"
    if "adminClient ?s' = Some a" for a
  proof (cases "t = Admin \<and> adminClient s = None")
    case True
    with that have "a = ?c" by (simp add: handleJoin_reg)
    with True show ?thesis by (simp add: handleJoin_reg update_conv')
  next
    case False
    with that have a: "adminClient s = Some a" by (simp add: handleJoin_reg)
    from reg_okD(3) [OF ok a] have m: "map_of (clients s) (c_id a) = Some a" .
    from reg_okD(1) [OF ok m] have "c_id a \<noteq> nextId s" by simp
    with m reg_okD(4) [OF ok a] show ?thesis by (simp add: handleJoin_reg update_conv')
  qed
  from 1 2 show ?thesis unfolding reg_ok_def by blast
qed

lemma handleDisconnect_reg:
  "nextId (handleDisconnect x s) = nextId s"
  "clients (handleDisconnect x s) =
     (case (x, getClient s x) of (Some cl, Some c) \<Rightarrow> AList.delete cl (clients s) | _ \<Rightarrow> clients s)"
  "adminClient (handleDisconnect x s) =
     (case (x, getClient s x) of
        (Some cl, Some c) \<Rightarrow> if c_type c = Admin then None else adminClient s
      | _ \<Rightarrow> adminClient s)"
  by (simp_all add: handleDisconnect_def Let_def split: option.splits)

lemma reg_ok_handleDisconnect:
  assumes ok: "reg_ok s"
  shows "reg_ok (handleDisconnect x s)"
proof (cases "\<exists>cl c. x = Some cl \<and> map_of (clients s) cl = Some c")
  case False
  then have "handleDisconnect x s = s"
    by (auto simp: handleDisconnect_def getClient_def split: option.splits)
  with ok show ?thesis by simp
next
  case True
  then obtain cl c where x: "x = Some cl" and c: "map_of (clients s) cl = Some c" by blast
  let ?s' = "handleDisconnect x s"
  have cs: "clients ?s' = AList.delete cl (clients s)"
    and ni: "nextId ?s' = nextId s"
    and ac: "adminClient ?s' = (if c_type c = Admin then None else adminClient s)"
    using x c by (simp_all add: handleDisconnect_reg getClient_def)
  have 1: "k < nextId ?s' \<and> c_id c' = k" if "map_of (clients ?s') k = Some c'" for k c'
  proof -
    from that have "map_of (clients s) k = Some c'"
      by (cases "k = cl") (simp_all add: cs delete_conv')
    from reg_okD(1,2) [OF ok this] show ?thesis by (simp add: ni)
  qed
  have 2: "map_of (clients ?s') (c_id a) = Some a \<and> c_type a = Admin"
    if "adminClient ?s' = Some a" for a
  proof -
    from that have na: "c_type c \<noteq> Admin" and a: "adminClient s = Some a"
      by (simp_all add: ac split: if_splits)
    from reg_okD(3) [OF ok a] have m: "map_of (clients s) (c_id a) = Some a" .
    have "c_id a \<noteq> cl" using m c na reg_okD(4) [OF ok a] by auto
    with m reg_okD(4) [OF ok a] show ?thesis by (simp add: cs delete_conv')
  qed
  from 1 2 show ?thesis unfolding reg_ok_def by blast
qed

lemma getClient_setReadyState [simp]: "getClient (setReadyState w r s) x = getClient s x"
  by (simp add: getClient_def split: option.splits)

lemma reg_ok_handleMessage: "reg_ok s \<Longrightarrow> reg_ok (handleMessage w m s)"
proof (cases m)
  case (Join n t)
  assume "reg_ok s"
  then show ?thesis using Join by (simp add: reg_ok_handleJoin)
qed (erule reg_ok_cong; simp)+

lemma reg_ok_step: "reg_ok s \<Longrightarrow> reg_ok (step s e)"
proof (cases e)
  case (Connect w)
  assume "reg_ok s"
  then show ?thesis unfolding Connect by (rule reg_ok_cong) (simp_all split: option.splits)
next
  case (Recv w m)
  assume "reg_ok s"
  then show ?thesis using Recv by (simp add: reg_ok_handleMessage)
next
  case (Closing w)
  assume "reg_ok s"
  then show ?thesis unfolding Closing by (rule reg_ok_cong) simp_all
next
  case (Close w)
  assume "reg_ok s"
  then have "reg_ok (setReadyState w CLOSED s)" by (rule reg_ok_cong) simp_all
  then show ?thesis using Close \<open>reg_ok s\<close> by (simp add: reg_ok_handleDisconnect)
next
  case Tick
  assume "reg_ok s"
  then show ?thesis unfolding Tick by (rule reg_ok_cong) simp_all
qed




section \<open>The low-priority lane\<close>

lemma sendToClient_lowprio_sent: "\<not> priority m \<Longrightarrow> sent (sendToClient k m s) = sent s"
  by (simp add: sendToClient_def Let_def split: option.splits)

lemma sendToClient_slot:
  assumes "\<not> priority m" "map_of (clients s) k = Some c" "isOpen s (c_ws c)"
    and ok: "qlist_ok (messageQueues s)"
  shows "map_of (messageQueues (sendToClient k m s)) k = Some [m]"
proof -
  let ?q = "case map_of (messageQueues s) k of None \<Rightarrow> [] | Some q \<Rightarrow> q"
  have "length ?q \<le> 1" using ok by (auto split: option.splits dest: qlist_ok_lookup)
  then have "(if length ?q \<ge> 1 then tl ?q else ?q) @ [m] = [m]" by (cases ?q) auto
  with assms(1-3) show ?thesis by (simp add: sendToClient_def Let_def update_conv')
qed

lemma sendToClient_other:
  "k' \<noteq> k \<Longrightarrow> map_of (messageQueues (sendToClient k m s)) k' = map_of (messageQueues s) k'"
  by (simp add: sendToClient_def Let_def ws_send_def update_conv' split: option.splits)

lemma flushMsg_cong:
  "clients s' = clients s \<Longrightarrow> conns s' = conns s \<Longrightarrow> chatHistory s' = chatHistory s
   \<Longrightarrow> flushMsg s' k q = flushMsg s k q"
proof -
  assume a: "clients s' = clients s" "conns s' = conns s" "chatHistory s' = chatHistory s"
  then have "resolve s' = resolve s" by (auto simp: resolve_def fun_eq_iff split: histref.splits)
  then have "serialize s' = serialize s" unfolding serialize_def by (intro ext) simp
  moreover have "isOpen s' = isOpen s" using a by (simp add: isOpen_def fun_eq_iff)
  ultimately show ?thesis using a by (simp add: flushMsg_def split: option.splits)
qed

lemma sent_flushQueue:
  "sent (flushQueue s e) = sent s @ (case flushMsg s (fst e) (snd e) of None \<Rightarrow> [] | Some x \<Rightarrow> [x])"
  by (auto simp: flushQueue_def flushMsg_def ws_send_def isOpen_def split: option.splits if_splits)

lemma sent_flush_all:
  "sent (foldl flushQueue s es) = sent s @ List.map_filter (\<lambda>e. flushMsg s (fst e) (snd e)) es"
proof (induction es arbitrary: s)
  case Nil
  then show ?case by (simp add: List.map_filter_simps)
next
  case (Cons e es)
  have "flushMsg (flushQueue s e) = flushMsg s"
    by (intro ext flushMsg_cong) simp_all
  then show ?case
    by (simp add: Cons.IH sent_flushQueue List.map_filter_simps split: option.splits)
qed

lemma sent_processMessageQueues:
  "sent (processMessageQueues s) =
     sent s @ List.map_filter (\<lambda>e. flushMsg s (fst e) (snd e)) (messageQueues s)"
  by (simp add: processMessageQueues_def sent_flush_all)

lemma unique_entry:
  "distinct (map fst al) \<Longrightarrow> map_of al k = Some v \<Longrightarrow> filter (\<lambda>e. fst e = k) al = [(k, v)]"
proof (induction al)
  case Nil
  then show ?case by simp
next
  case (Cons p al)
  show ?case
  proof (cases "fst p = k")
    case True
    with Cons.prems have "p = (k, v)" by (cases p) simp
    moreover from Cons.prems True have "filter (\<lambda>e. fst e = k) al = []"
      by (force simp: filter_empty_conv image_iff)
    ultimately show ?thesis by simp
  next
    case False
    with Cons show ?thesis by (cases p) auto
  qed
qed

text \<open>
  Claim C2. In every reachable state each pending low-priority queue holds at most one
  message. Sending frame \<open>F1\<close> and then \<open>F2\<close> to a registered connection with an open
  socket writes nothing to the transport and leaves exactly one queue entry for that
  connection, holding \<open>F2\<close> alone. The tick appends to the transport log at most one
  message for each entry of the queue map, whose keys are distinct, and what it hands to
  this connection is \<open>F2\<close>.
\<close>

theorem lowprio_lane_latest_wins:
  assumes "\<not> priority F1" and "\<not> priority F2"
    and "map_of (clients (run es)) k = Some c" and "isOpen (run es) (c_ws c)"
  shows "let s = run es; s2 = sendToClient k F2 (sendToClient k F1 s) in
           list_all (\<lambda>e. length (snd e) \<le> 1) (messageQueues s)
         \<and> sent s2 = sent s
         \<and> filter (\<lambda>e. fst e = k) (messageQueues s2) = [(k, [F2])]
         \<and> distinct (map fst (messageQueues s2))
         \<and> sent (processMessageQueues s2) =
             sent s2 @ List.map_filter (\<lambda>e. flushMsg s2 (fst e) (snd e)) (messageQueues s2)
         \<and> flushMsg s2 k [F2] = Some (c_ws c, serialize s2 F2)"
proof -
  let ?s = "run es"
  let ?s1 = "sendToClient k F1 ?s"
  let ?s2 = "sendToClient k F2 ?s1"
  have ok: "qlist_ok (messageQueues ?s)" by (rule qlist_ok_run)
  then have ok1: "qlist_ok (messageQueues ?s1)" and ok2: "qlist_ok (messageQueues ?s2)" by simp_all
  have slot: "map_of (messageQueues ?s2) k = Some [F2]"
    using assms ok1 by (intro sendToClient_slot) simp_all
  have "filter (\<lambda>e. fst e = k) (messageQueues ?s2) = [(k, [F2])]"
    using ok2 slot by (intro unique_entry) (simp_all add: qlist_ok_def)
  moreover have "sent ?s2 = sent ?s" using assms by (simp add: sendToClient_lowprio_sent)
  moreover have "flushMsg ?s2 k [F2] = Some (c_ws c, serialize ?s2 F2)"
    using assms by (simp add: flushMsg_def)
  ultimately show ?thesis
    using ok ok2 by (simp add: Let_def qlist_ok_def sent_processMessageQueues)
qed

lemma two_frames_eval:
  "map_of (clients two_frames) 1 = Some \<lparr>c_id = 1, c_ws = 0, c_username = ''op'', c_type = Admin\<rparr>"
  "isOpen two_frames 0"
  unfolding two_frames_def by code_simp+

theorem lowprio_lane_latest_wins_witness:
  "sent (processMessageQueues
           (sendToClient 1 (VideoFrameMsg ''F2'' 2) (sendToClient 1 (VideoFrameMsg ''F1'' 2) two_frames)))
   = sent two_frames @ [(0, VideoFrameMsg ''F2'' 2)]"
proof -
  let ?s2 = "sendToClient 1 (VideoFrameMsg ''F2'' 2) (sendToClient 1 (VideoFrameMsg ''F1'' 2) two_frames)"
  have o: "isOpen two_frames (c_ws \<lparr>c_id = 1, c_ws = 0, c_username = ''op'', c_type = Admin\<rparr>)"
    using two_frames_eval(2) by simp
  have p: "\<not> priority (VideoFrameMsg ''F1'' 2 :: pmsg)" "\<not> priority (VideoFrameMsg ''F2'' 2 :: pmsg)"
    by simp_all
  note t = lowprio_lane_latest_wins [OF p two_frames_eval(1) [unfolded two_frames_def]
      o [unfolded two_frames_def], folded two_frames_def, unfolded Let_def]
  have mf: "List.map_filter (\<lambda>e. flushMsg ?s2 (fst e) (snd e)) (messageQueues ?s2)
            = [(0, VideoFrameMsg ''F2'' 2)]"
    unfolding two_frames_def by code_simp
  from t have "sent (processMessageQueues ?s2) =
      sent ?s2 @ List.map_filter (\<lambda>e. flushMsg ?s2 (fst e) (snd e)) (messageQueues ?s2)"
    and "sent ?s2 = sent two_frames"
    by blast+
  then show ?thesis by (simp only: mf)
qed

section \<open>A second operator join\<close>





section \<open>Queue positions\<close>

lemma queuePositions_length [simp]: "length (queuePositions q) = length q"
  by (simp add: queuePositions_def)

lemma queuePositions_nth:
  "i < length q \<Longrightarrow> queuePositions q ! i = (q ! i, QueuePosition (i + 1))"
  by (simp add: queuePositions_def)

lemma queuePositions_fst: "map fst (queuePositions q) = q"
  by (rule nth_equalityI) (simp_all add: queuePositions_nth)

lemma queuePositions_snd: "map snd (queuePositions q) = map QueuePosition [1..<Suc (length q)]"
proof (rule nth_equalityI)
  show "length (map snd (queuePositions q)) = length (map QueuePosition [1..<Suc (length q)])"
    by (simp del: upt_Suc)
next
  fix i assume "i < length (map snd (queuePositions q))"
  then have i: "i < length q" by simp
  then have "[1..<Suc (length q)] ! i = i + 1"
    using nth_upt [of 1 i "Suc (length q)"] by (simp del: upt_Suc)
  with i show "map snd (queuePositions q) ! i = map QueuePosition [1..<Suc (length q)] ! i"
    by (simp add: queuePositions_nth del: upt_Suc)
qed

lemma queuePositions_lowprio: "e \<in> set (queuePositions q) \<Longrightarrow> \<not> priority (snd e)"
  by (auto simp: queuePositions_def)

lemma sendAll_lowprio_sent:
  "(\<And>e. e \<in> set ms \<Longrightarrow> \<not> priority (snd e)) \<Longrightarrow> sent (sendAll ms s) = sent s"
  by (induction ms arbitrary: s) (simp_all add: sendToClient_lowprio_sent)

lemma sendAll_other:
  "k \<notin> fst ` set ms \<Longrightarrow> map_of (messageQueues (sendAll ms s)) k = map_of (messageQueues s) k"
  by (induction ms arbitrary: s) (auto simp: sendToClient_other)

lemma isOpen_sendAll [simp]:
  "isOpen (sendAll ms s) w = isOpen s w"
  "isOpen (updateQueue s) w = isOpen s w"
  "isOpen (updateUserList s) w = isOpen s w"
  by (simp_all add: isOpen_def)

lemma sendAll_slot:
  assumes ok: "qlist_ok (messageQueues s)"
    and i: "i < length ms"
    and last: "fst (ms ! i) \<notin> fst ` set (drop (Suc i) ms)"
    and low: "\<not> priority (snd (ms ! i))"
    and c: "map_of (clients s) (fst (ms ! i)) = Some c" "isOpen s (c_ws c)"
  shows "map_of (messageQueues (sendAll ms s)) (fst (ms ! i)) = Some [snd (ms ! i)]"
proof -
  let ?k = "fst (ms ! i)"
  let ?s1 = "sendAll (take i ms) s"
  have split: "ms = take i ms @ ms ! i # drop (Suc i) ms"
    using i by (rule id_take_nth_drop)
  have "sendAll ms s = sendAll (drop (Suc i) ms) (sendToClient ?k (snd (ms ! i)) ?s1)"
    by (subst split) simp
  moreover have "map_of (messageQueues (sendToClient ?k (snd (ms ! i)) ?s1)) ?k = Some [snd (ms ! i)]"
    using low c ok by (intro sendToClient_slot) simp_all
  ultimately show ?thesis using last by (simp add: sendAll_other)
qed

text \<open>
  What \<open>updateQueue\<close> alone does, in a reachable state: it hands the delivery engine one
  position message per queue entry, in queue order, the message for the entry at index
  \<open>i\<close> carrying \<open>i + 1\<close>, and writes nothing to the transport. For an entry that does
  not occur again further down the queue, whose participant is registered with an open
  socket, the pending slot afterwards holds just that position. An entry that does occur
  again has its position replaced in the slot by the later one.
\<close>

theorem updateQueue_positions:
  assumes "i < length (userQueue (run es))"
    and "userQueue (run es) ! i \<notin> set (drop (Suc i) (userQueue (run es)))"
    and "map_of (clients (run es)) (userQueue (run es) ! i) = Some c"
    and "isOpen (run es) (c_ws c)"
  shows "let s = run es; q = userQueue s; u = q ! i in
           map fst (queuePositions q) = q
         \<and> map snd (queuePositions q) = map QueuePosition [1..<Suc (length q)]
         \<and> queuePositions q ! i = (u, QueuePosition (i + 1))
         \<and> updateQueue s = sendAll (queuePositions q) s
         \<and> sent (updateQueue s) = sent s
         \<and> map_of (messageQueues (updateQueue s)) u = Some [QueuePosition (i + 1)]
         \<and> flushMsg (updateQueue s) u [QueuePosition (i + 1)] = Some (c_ws c, QueuePosition (i + 1))"
proof -
  let ?s = "run es"
  let ?q = "userQueue ?s"
  let ?ms = "queuePositions ?q"
  have nth: "?ms ! i = (?q ! i, QueuePosition (i + 1))"
    using assms(1) by (rule queuePositions_nth)
  have "fst ` set (drop (Suc i) ?ms) = set (drop (Suc i) ?q)"
    using queuePositions_fst [of ?q] by (metis drop_map set_map)
  then have last: "fst (?ms ! i) \<notin> fst ` set (drop (Suc i) ?ms)"
    using assms(2) nth by simp
  have slot: "map_of (messageQueues (sendAll ?ms ?s)) (fst (?ms ! i)) = Some [snd (?ms ! i)]"
    using assms last nth by (intro sendAll_slot [OF qlist_ok_run]) simp_all
  have se: "sent (updateQueue ?s) = sent ?s"
    unfolding updateQueue_def by (rule sendAll_lowprio_sent) (rule queuePositions_lowprio)
  have fl: "flushMsg (updateQueue ?s) (?q ! i) [QueuePosition (i + 1)] = Some (c_ws c, QueuePosition (i + 1))"
    using assms(3,4) by (simp add: flushMsg_def serialize_def)
  show ?thesis
    unfolding Let_def using nth slot se fl queuePositions_fst [of ?q] queuePositions_snd [of ?q]
    by (simp add: updateQueue_def)
qed

theorem updateQueue_positions_witness:
  "userQueue queued_state = [2, 3]
   \<and> map snd (queuePositions (userQueue queued_state)) = [QueuePosition 1, QueuePosition 2]
   \<and> map_of (messageQueues (updateQueue queued_state)) 3 = Some [QueuePosition 2]"
proof -
  let ?c = "\<lparr>c_id = 3, c_ws = 2, c_username = ''c'', c_type = User\<rparr>"
  have q: "userQueue queued_state = [2, 3]" unfolding queued_state_def by code_simp
  have h1: "1 < length (userQueue queued_state)" by (simp add: q)
  have h2: "userQueue queued_state ! 1 \<notin> set (drop (Suc 1) (userQueue queued_state))"
    by (simp add: q)
  have h3: "map_of (clients queued_state) (userQueue queued_state ! 1) = Some ?c"
    unfolding queued_state_def by code_simp
  have h4: "isOpen queued_state (c_ws ?c)" unfolding queued_state_def by code_simp
  note t = updateQueue_positions [OF h1 [unfolded queued_state_def] h2 [unfolded queued_state_def]
      h3 [unfolded queued_state_def] h4 [unfolded queued_state_def],
      folded queued_state_def, unfolded Let_def]
  from t have a: "map snd (queuePositions (userQueue queued_state))
        = map QueuePosition [1..<Suc (length (userQueue queued_state))]"
    and b: "map_of (messageQueues (updateQueue queued_state)) (userQueue queued_state ! 1)
        = Some [QueuePosition (1 + 1)]"
    by blast+
  have u: "[1..<Suc (length (userQueue queued_state))] = [1, 2]" by (simp add: q upt_rec)
  from a have a': "map snd (queuePositions (userQueue queued_state)) = [QueuePosition 1, QueuePosition 2]"
    unfolding u by simp
  from b have b': "map_of (messageQueues (updateQueue queued_state)) 3 = Some [QueuePosition 2]"
    by (simp add: q)
  from q a' b' show ?thesis by blast
qed

section \<open>Where the code departs from the specification\<close>

text \<open>
  Claim C1 (the code departs from it). The operator, identifier 1, selects participant 2
  and then, still paired, participant 3. \<open>handleSelectUser\<close> overwrites the operator's
  entry and leaves participant 2's: participant 2's partner is the operator, while the
  operator's partner is participant 3.
\<close>

theorem reselect_breaks_symmetry:
  "activeChats (run reselect_trace) = [(2, 1), (1, 3), (3, 1)]
   \<and> map_of (activeChats (run reselect_trace)) 2 = Some 1
   \<and> map_of (activeChats (run reselect_trace)) 1 = Some 3"
  unfolding reselect_trace_def by code_simp

text \<open>
  Claim C3 (the code departs from it). A second operator join is answered with the error
  and the socket is closed, but the joiner was registered first, with the operator role:
  the registry then holds two operator entries. The close event of the rejected socket runs
  the operator branch of \<open>handleDisconnect\<close>, which clears \<open>adminClient\<close> although the
  first operator is still connected, so a third operator join is accepted. Two connections
  with open sockets now hold the operator role in the registry, neither was sent an error,
  and the first one, on socket 0, still passes the operator check: its \<^verbatim>\<open>selectUser\<close>
  pairs participant 4.
\<close>

theorem two_operators_registered:
  "map (\<lambda>e. c_type (snd e)) (clients (run (take 4 two_operators_trace))) = [Admin, Admin]
   \<and> map_of (clients (run two_operators_trace)) 1
     = Some \<lparr>c_id = 1, c_ws = 0, c_username = ''op'', c_type = Admin\<rparr>
   \<and> isOpen (run two_operators_trace) 0
   \<and> map_of (clients (run two_operators_trace)) 3
     = Some \<lparr>c_id = 3, c_ws = 2, c_username = ''op3'', c_type = Admin\<rparr>
   \<and> isOpen (run two_operators_trace) 2
   \<and> sent (run two_operators_trace)
     = [(0, Welcome 1), (1, Welcome 2), (1, ErrorMsg ''An admin is already connected''),
        (2, Welcome 3)]
   \<and> senderId (run stale_operator_trace) 0 = Some 1
   \<and> activeChats (run stale_operator_trace) = [(4, 3), (3, 4)]"
  unfolding stale_operator_trace_def two_operators_trace_def by code_simp

text \<open>
  Claim C6 (the code departs from it). The operator is paired with participant 2 (socket
  1) and participant 3 is queued; the operator's socket closes. The pairings and the queue
  are emptied, but the chat-ended notification for participant 2 goes into its one-place
  pending slot and is replaced there, in the same handler, by the position-0 message:
  after the close the slot holds the position alone, and socket 1 never receives a
  chat-ended message.
\<close>

theorem operator_disconnect_loses_chatEnded:
  "messageQueues (run (take 10 operator_leaves_trace))
     = [(2, [QueuePosition 0]), (3, [QueuePosition 0])]
   \<and> activeChats (run operator_leaves_trace) = []
   \<and> userQueue (run operator_leaves_trace) = []
   \<and> filter (\<lambda>e. fst e = 1) (sent (run operator_leaves_trace))
     = [(1, Welcome 2), (1, QueuePosition 1), (1, ChatStarted 1 ''op'' Admin []),
        (1, QueuePosition 0)]"
  unfolding operator_leaves_trace_def by code_simp

text \<open>
  Claim C7 (the code departs from it). Operator 1 and participant 2 are paired, exchange
  two chat messages, the chat is ended and they are paired again. Both messages are
  stored under the one key \<open>(1, 2)\<close>, and the participant's socket receives the transcript
  at the second pairing. The operator's copy of each \<open>chatStarted\<close> goes into the
  operator's one-place pending slot and is replaced there, in the same handler, by the
  user list: the operator's socket, 0, never receives a \<open>chatStarted\<close> message.
\<close>

theorem operator_never_receives_chatStarted:
  "chatHistory (run repair_trace)
     = [((1, 2), [\<lparr>h_from = ''b'', h_text = ''hi'', h_timestamp = 7\<rparr>,
                  \<lparr>h_from = ''op'', h_text = ''yo'', h_timestamp = 8\<rparr>])]
   \<and> filter (\<lambda>e. fst e = 0) (sent (run repair_trace))
     = [(0, Welcome 1), (0, UserList [(2, ''b'', User, False)]),
        (0, UserList [(2, ''b'', User, True)]), (0, ChatMessage ''b'' ''hi'' 7),
        (0, UserList [(2, ''b'', User, False)]), (0, UserList [(2, ''b'', User, True)])]
   \<and> filter (\<lambda>e. fst e = 1) (sent (run repair_trace))
     = [(1, Welcome 2), (1, QueuePosition 1), (1, ChatStarted 1 ''op'' Admin []),
        (1, ChatMessage ''op'' ''yo'' 8), (1, QueuePosition 1),
        (1, ChatStarted 1 ''op'' Admin
              [\<lparr>h_from = ''b'', h_text = ''hi'', h_timestamp = 7\<rparr>,
               \<lparr>h_from = ''op'', h_text = ''yo'', h_timestamp = 8\<rparr>])]"
  unfolding repair_trace_def by code_simp

text \<open>
  Claim C4 (the code departs from it). Participant 2 is in the waiting queue and the
  operator sends \<^verbatim>\<open>endChat\<close> naming it. \<open>handleEndChat\<close> appends the identifier with no
  test for its presence, which the removals in \<open>handleSelectUser\<close> and
  \<open>handleDisconnect\<close> make with \<^verbatim>\<open>indexOf\<close>: the queue is \<open>[2, 2]\<close>. When participant 2
  then disconnects, one occurrence is removed and the other stays in the queue although
  the identifier has left the registry.
\<close>

theorem endChat_requeues_queued_participant:
  "userQueue (run (take 4 endchat_queued_trace)) = [2]
   \<and> userQueue (run endchat_queued_trace) = [2, 2]
   \<and> \<not> distinct (userQueue (run endchat_queued_trace))
   \<and> userQueue (run (endchat_queued_trace @ [Close 1])) = [2]
   \<and> map_of (clients (run (endchat_queued_trace @ [Close 1]))) 2 = None"
  unfolding endchat_queued_trace_def by code_simp

text \<open>
  Claim C5 (the code departs from it). Participant 2 is the only participant waiting and
  has been told position 1. The operator's \<^verbatim>\<open>endChat\<close> naming it makes the queue
  \<open>[2, 2]\<close> (the defect of claim C4), and \<open>updateQueue\<close> then sends participant 2 the
  position 1 and, replacing it in the one-place slot, the position 2: the next tick tells
  the only waiting participant that it is second, and position 1 is reported to nobody.
\<close>

theorem duplicate_entry_reports_second_position:
  "userQueue (run duplicate_position_trace) = [2, 2]
   \<and> queuePositions (userQueue (run duplicate_position_trace))
       = [(2, QueuePosition 1), (2, QueuePosition 2)]
   \<and> messageQueues (run (take 6 duplicate_position_trace))
       = [(1, [UserList [(2, ''b'', User, False)]]), (2, [QueuePosition 2])]
   \<and> filter (\<lambda>e. fst e = 1) (sent (run duplicate_position_trace))
       = [(1, Welcome 2), (1, QueuePosition 1), (1, QueuePosition 2)]"
  unfolding duplicate_position_trace_def by code_simp

text \<open>
  Claim C8 (the code departs from it). Connection 2 joins as operator while connection 0
  is the registered operator: it is sent the error and its socket is closed by the broker,
  so it is not the operator, but its registry entry has the operator role (the defect of
  claim C3). Its \<^verbatim>\<open>selectUser\<close>, arriving before the close event of its socket, passes
  the role test of \<open>handleSelectUser\<close>: participant 2 leaves the waiting queue and is
  paired with the operator, and messages go out to sockets 0 and 1.
\<close>

theorem rejected_operator_selects:
  "adminClient (run rejected_operator_trace)
     = Some \<lparr>c_id = 1, c_ws = 0, c_username = ''op'', c_type = Admin\<rparr>
   \<and> map_of (conns (run rejected_operator_trace)) 2
     = Some \<lparr>clientId = Some 3, readyState = CLOSING\<rparr>
   \<and> userQueue (run rejected_operator_trace) = [2]
   \<and> activeChats (run rejected_operator_trace) = []
   \<and> userQueue (run (rejected_operator_trace @ [Recv 2 (SelectUser (Some 2))])) = []
   \<and> activeChats (run (rejected_operator_trace @ [Recv 2 (SelectUser (Some 2))]))
     = [(2, 1), (1, 2)]
   \<and> sent (run (rejected_operator_trace @ [Recv 2 (SelectUser (Some 2)), Tick]))
     = sent (run rejected_operator_trace)
       @ [(0, UserList [(2, ''b'', User, True)]), (1, ChatStarted 1 ''op'' Admin [])]"
  unfolding rejected_operator_trace_def by code_simp

section \<open>The waiting queue\<close>

lemma handleJoin_queue:
  "userQueue (handleJoin w n t s) =
     (if t \<noteq> Admin \<and> adminClient s \<noteq> None then userQueue s @ [nextId s] else userQueue s)"
  "activeChats (handleJoin w n t s) = activeChats s"
  by (simp_all add: handleJoin_def Let_def split: option.splits)

lemma handleSelectUser_queue:
  "userQueue (handleSelectUser w u s) =
     (case selectTarget s w u of None \<Rightarrow> userQueue s | Some (a, x) \<Rightarrow> remove1 x (userQueue s))"
  "activeChats (handleSelectUser w u s) =
     (case selectTarget s w u of
        None \<Rightarrow> activeChats s
      | Some (a, x) \<Rightarrow> AList.update a x (AList.update x a (activeChats s)))"
  by (simp_all add: handleSelectUser_def selectTarget_def Let_def split: option.splits)

lemma selectTargetD:
  assumes "selectTarget s w u = Some (a, x)"
  shows "\<exists>adm. adminClient s = Some adm \<and> c_id adm = a" and "ctype s x = Some User"
  using assms
  by (auto simp: selectTarget_def ctype_def getClient_def split: option.splits if_splits)

lemma getClient_simps:
  "getClient s None = None"
  "getClient s (Some k) = map_of (clients s) k"
  by (simp_all add: getClient_def)

lemma getClient_deleteChat [simp]: "getClient (deleteChat x s) y = getClient s y"
  by (cases y) (simp_all add: getClient_def)

lemma requeued_simps:
  "requeued s None = []"
  "map_of (clients s) x = None \<Longrightarrow> requeued s (Some x) = []"
  "map_of (clients s) x = Some c \<Longrightarrow> requeued s (Some x) = (if c_type c = User then [x] else [])"
  by (simp_all add: requeued_def ctype_def)

lemma handleEndChat_effect_aux:
  assumes "senderId s w = Some f" "map_of (clients s) f = Some fc"
    and "(if c_type fc = Admin then u else map_of (activeChats s) f) = other"
  shows "userQueue (handleEndChat w u s) = userQueue s @ requeued s other
       \<and> activeChats (handleEndChat w u s) = activeChats (deleteChat other (deleteChat (Some f) s))"
proof (cases other)
  case None
  with assms show ?thesis
    by (simp add: handleEndChat_def getClient_simps Let_def requeued_simps)
next
  case (Some o')
  show ?thesis
  proof (cases "map_of (clients s) o'")
    case None
    with assms Some show ?thesis
      by (simp add: handleEndChat_def getClient_simps Let_def requeued_simps)
  next
    case (Some oc)
    with assms \<open>other = Some o'\<close> show ?thesis
      by (simp add: handleEndChat_def getClient_simps Let_def requeued_simps)
  qed
qed

lemma handleEndChat_effect:
  assumes "endOther s w u = Some (f, other)"
  shows "userQueue (handleEndChat w u s) = userQueue s @ requeued s other"
    and "activeChats (handleEndChat w u s) = activeChats (deleteChat other (deleteChat (Some f) s))"
proof -
  from assms obtain fc where "senderId s w = Some f" "map_of (clients s) f = Some fc"
    "(if c_type fc = Admin then u else map_of (activeChats s) f) = other"
    by (auto simp: endOther_def getClient_simps split: option.splits)
  from handleEndChat_effect_aux [OF this]
  show "userQueue (handleEndChat w u s) = userQueue s @ requeued s other"
    and "activeChats (handleEndChat w u s) = activeChats (deleteChat other (deleteChat (Some f) s))"
    by simp_all
qed

lemma handleEndChat_none:
  "endOther s w u = None \<Longrightarrow> handleEndChat w u s = s"
  by (cases "senderId s w"; cases "getClient s (senderId s w)")
     (simp_all add: handleEndChat_def endOther_def)

lemma handleDisconnect_queue:
  "userQueue (handleDisconnect x s) =
     (case (x, getClient s x) of
        (Some cl, Some c) \<Rightarrow> if c_type c = Admin then [] else remove1 cl (userQueue s)
      | _ \<Rightarrow> userQueue s)"
  "activeChats (handleDisconnect x s) =
     (case (x, getClient s x) of
        (Some cl, Some c) \<Rightarrow>
          if c_type c = Admin then []
          else (case map_of (activeChats s) cl of
                  None \<Rightarrow> activeChats s
                | Some p \<Rightarrow> AList.delete p (AList.delete cl (activeChats s)))
      | _ \<Rightarrow> activeChats s)"
  by (simp_all add: handleDisconnect_def Let_def deleteChat_def remove1_idem split: option.splits)

lemma queue_okI:
  assumes "distinct (userQueue s)"
    and "\<And>q. q \<in> set (userQueue s) \<Longrightarrow> \<exists>t. ctype s q = Some t \<and> t \<noteq> Admin"
    and "\<And>q. q \<in> set (userQueue s) \<Longrightarrow> map_of (activeChats s) q = None"
    and "userQueue s \<noteq> [] \<Longrightarrow> adminClient s \<noteq> None"
    and "\<And>k v. map_of (activeChats s) k = Some v \<Longrightarrow>
           k < nextId s \<and> v < nextId s \<and> (ctype s k = Some Admin \<or> ctype s v \<noteq> Some User)"
  shows "queue_ok s"
  using assms unfolding queue_ok_def by blast

lemma queue_okD:
  assumes "queue_ok s"
  shows "distinct (userQueue s)"
    and "\<And>q. q \<in> set (userQueue s) \<Longrightarrow> \<exists>t. ctype s q = Some t \<and> t \<noteq> Admin"
    and "\<And>q. q \<in> set (userQueue s) \<Longrightarrow> map_of (activeChats s) q = None"
    and "userQueue s \<noteq> [] \<Longrightarrow> adminClient s \<noteq> None"
    and "\<And>k v. map_of (activeChats s) k = Some v \<Longrightarrow>
           k < nextId s \<and> v < nextId s \<and> (ctype s k = Some Admin \<or> ctype s v \<noteq> Some User)"
  using assms unfolding queue_ok_def by blast+

lemma ctype_cong: "clients s' = clients s \<Longrightarrow> ctype s' = ctype s"
  by (simp add: ctype_def fun_eq_iff)

lemma queue_ok_cong:
  assumes "queue_ok s" "userQueue s' = userQueue s" "activeChats s' = activeChats s"
    "clients s' = clients s" "adminClient s' = adminClient s" "nextId s' = nextId s"
  shows "queue_ok s'"
  using assms ctype_cong [OF assms(4)] unfolding queue_ok_def by simp

lemma ctype_lt: "reg_ok s \<Longrightarrow> ctype s k = Some t \<Longrightarrow> k < nextId s"
  by (auto simp: ctype_def dest: reg_okD(1))

lemma ctype_admin: "reg_ok s \<Longrightarrow> adminClient s = Some a \<Longrightarrow> ctype s (c_id a) = Some Admin"
  by (simp add: ctype_def reg_okD(3,4))

lemma ctype_handleJoin:
  "ctype (handleJoin w n t s) k = (if k = nextId s then Some t else ctype s k)"
  by (simp add: ctype_def handleJoin_reg update_conv')

lemma queue_ok_handleJoin:
  assumes reg: "reg_ok s" and ok: "queue_ok s"
  shows "queue_ok (handleJoin w n t s)"
proof (rule queue_okI)
  let ?s' = "handleJoin w n t s"
  note D = queue_okD [OF ok]
  have old: "q < nextId s" if "q \<in> set (userQueue s)" for q
    using D(2) [OF that] ctype_lt [OF reg] by blast
  then have fresh: "nextId s \<notin> set (userQueue s)" by blast
  show "distinct (userQueue ?s')"
    using D(1) fresh by (simp add: handleJoin_queue)
  show "\<exists>t'. ctype ?s' q = Some t' \<and> t' \<noteq> Admin" if "q \<in> set (userQueue ?s')" for q
  proof (cases "q = nextId s")
    case True
    with that fresh have "t \<noteq> Admin" by (auto simp: handleJoin_queue split: if_splits)
    with True show ?thesis by (simp add: ctype_handleJoin)
  next
    case False
    with that have "q \<in> set (userQueue s)" by (auto simp: handleJoin_queue split: if_splits)
    from D(2) [OF this] False show ?thesis by (simp add: ctype_handleJoin)
  qed
  show "map_of (activeChats ?s') q = None" if "q \<in> set (userQueue ?s')" for q
  proof (cases "q = nextId s")
    case True
    have "map_of (activeChats s) (nextId s) = None"
    proof (cases "map_of (activeChats s) (nextId s)")
      case (Some v)
      from D(5) [OF this] show ?thesis by simp
    qed simp
    with True show ?thesis by (simp add: handleJoin_queue)
  next
    case False
    with that have "q \<in> set (userQueue s)" by (auto simp: handleJoin_queue split: if_splits)
    from D(3) [OF this] show ?thesis by (simp add: handleJoin_queue)
  qed
  show "adminClient ?s' \<noteq> None" if "userQueue ?s' \<noteq> []"
  proof -
    from that D(4) have "adminClient s \<noteq> None"
      by (auto simp: handleJoin_queue split: if_splits)
    then show ?thesis by (simp add: handleJoin_reg)
  qed
  show "k < nextId ?s' \<and> v < nextId ?s' \<and> (ctype ?s' k = Some Admin \<or> ctype ?s' v \<noteq> Some User)"
    if "map_of (activeChats ?s') k = Some v" for k v
  proof -
    from that have "map_of (activeChats s) k = Some v" by (simp add: handleJoin_queue)
    from D(5) [OF this] show ?thesis by (simp add: handleJoin_reg ctype_handleJoin)
  qed
qed

lemma queue_ok_handleSelectUser:
  assumes reg: "reg_ok s" and ok: "queue_ok s"
  shows "queue_ok (handleSelectUser w u s)"
proof (cases "selectTarget s w u")
  case None
  with ok show ?thesis
    by (elim queue_ok_cong) (simp_all add: handleSelectUser_queue)
next
  case (Some p)
  obtain a x where p: "p = (a, x)" by (cases p)
  let ?s' = "handleSelectUser w u s"
  note D = queue_okD [OF ok]
  from selectTargetD [OF Some [unfolded p]] obtain adm
    where adm: "adminClient s = Some adm" "c_id adm = a" and x: "ctype s x = Some User"
    by blast
  have a: "ctype s a = Some Admin" using ctype_admin [OF reg adm(1)] adm(2) by simp
  have uq: "userQueue ?s' = remove1 x (userQueue s)"
    and ac: "map_of (activeChats ?s') = (map_of (activeChats s))(x \<mapsto> a, a \<mapsto> x)"
    using Some p by (simp_all add: handleSelectUser_queue update_conv')
  have ct: "ctype ?s' = ctype s" by (rule ctype_cong) simp
  show ?thesis
  proof (rule queue_okI)
    show "distinct (userQueue ?s')" using D(1) by (simp add: uq)
    show "\<exists>t. ctype ?s' q = Some t \<and> t \<noteq> Admin" if "q \<in> set (userQueue ?s')" for q
    proof -
      from that have "q \<in> set (userQueue s)" using D(1) by (simp add: uq set_remove1_eq)
      from D(2) [OF this] show ?thesis by (simp add: ct)
    qed
    show "map_of (activeChats ?s') q = None" if "q \<in> set (userQueue ?s')" for q
    proof -
      from that have q: "q \<in> set (userQueue s)" and "q \<noteq> x"
        using D(1) by (simp_all add: uq set_remove1_eq)
      moreover from D(2) [OF q] a have "q \<noteq> a" by auto
      ultimately show ?thesis using D(3) [OF q] by (simp add: ac)
    qed
    show "adminClient ?s' \<noteq> None" if "userQueue ?s' \<noteq> []"
      using adm by simp
    show "k < nextId ?s' \<and> v < nextId ?s' \<and> (ctype ?s' k = Some Admin \<or> ctype ?s' v \<noteq> Some User)"
      if "map_of (activeChats ?s') k = Some v" for k v
    proof -
      have m: "((map_of (activeChats s))(x \<mapsto> a, a \<mapsto> x)) k = Some v"
        using that by (simp only: ac)
      show ?thesis
      proof (cases "k = a")
        case True
        with m have "v = x" by simp
        with True a x ctype_lt [OF reg] show ?thesis by (simp add: ct)
      next
        case False
        show ?thesis
        proof (cases "k = x")
          case True
          with m False have "v = a" by simp
          with True a x ctype_lt [OF reg] show ?thesis by (simp add: ct)
        next
          case kx: False
          with m False have "map_of (activeChats s) k = Some v" by simp
          from D(5) [OF this] show ?thesis by (simp add: ct)
        qed
      qed
    qed
  qed
qed

lemma deleteChat_lookup:
  "map_of (activeChats (deleteChat x s)) k = Some v \<Longrightarrow> map_of (activeChats s) k = Some v"
  by (cases x) (auto simp: deleteChat_def delete_conv' split: if_splits)

lemma deleteChat_key: "map_of (activeChats (deleteChat (Some k) s)) k = None"
  by (simp add: deleteChat_def delete_conv')

lemma requeued_cases:
  obtains (none) "requeued s other = []"
  | (one) x where "other = Some x" "ctype s x = Some User" "requeued s other = [x]"
proof (cases other)
  case None
  then show ?thesis using that(1) by (simp add: requeued_def)
next
  case (Some x)
  then show ?thesis using that by (cases "ctype s x = Some User") (simp_all add: requeued_def)
qed

lemma queue_ok_handleEndChat:
  assumes reg: "reg_ok s" and ok: "queue_ok s"
    and guard: "senderIsAdmin s w \<Longrightarrow> requeued s u \<noteq> [] \<Longrightarrow>
                  adminClient s \<noteq> None \<and> set (requeued s u) \<inter> set (userQueue s) = {}"
  shows "queue_ok (handleEndChat w u s)"
proof (cases "endOther s w u")
  case None
  with ok show ?thesis by (simp add: handleEndChat_none)
next
  case (Some p)
  obtain f other where p: "p = (f, other)" by (cases p)
  let ?s' = "handleEndChat w u s"
  note D = queue_okD [OF ok]
  from Some p obtain fc where f: "senderId s w = Some f" "map_of (clients s) f = Some fc"
    and other: "other = (if c_type fc = Admin then u else map_of (activeChats s) f)"
    by (auto simp: endOther_def getClient_simps split: option.splits)
  have uq: "userQueue ?s' = userQueue s @ requeued s other"
    and ac: "activeChats ?s' = activeChats (deleteChat other (deleteChat (Some f) s))"
    using handleEndChat_effect [OF Some [unfolded p]] by simp_all
  have ct: "ctype ?s' = ctype s" by (rule ctype_cong) simp
  have sub: "map_of (activeChats s) k = Some v" if "map_of (activeChats ?s') k = Some v" for k v
    using that unfolding ac by (blast dest: deleteChat_lookup)
  have keep: "map_of (activeChats ?s') q = None" if "map_of (activeChats s) q = None" for q
    using that sub [of q] by (cases "map_of (activeChats ?s') q") auto
  have E: "k < nextId ?s' \<and> v < nextId ?s' \<and> (ctype ?s' k = Some Admin \<or> ctype ?s' v \<noteq> Some User)"
    if "map_of (activeChats ?s') k = Some v" for k v
    using D(5) [OF sub [OF that]] by (simp add: ct)
  show ?thesis
  proof (cases rule: requeued_cases [of s other])
    case none
    show ?thesis
    proof (rule queue_okI)
      show "distinct (userQueue ?s')" using D(1) by (simp add: uq none)
      show "\<exists>t. ctype ?s' q = Some t \<and> t \<noteq> Admin" if "q \<in> set (userQueue ?s')" for q
        using that D(2) [of q] by (simp add: uq none ct)
      show "map_of (activeChats ?s') q = None" if "q \<in> set (userQueue ?s')" for q
        using that D(3) [of q] by (simp add: uq none keep)
      show "adminClient ?s' \<noteq> None" if "userQueue ?s' \<noteq> []"
        using that D(4) by (simp add: uq none)
    qed (rule E)
  next
    case (one x)
    have adm: "c_type fc = Admin"
    proof (rule ccontr)
      assume na: "c_type fc \<noteq> Admin"
      with other one(1) have "map_of (activeChats s) f = Some x" by simp
      from D(5) [OF this] one(2) have "ctype s f = Some Admin" by simp
      with f(2) na show False by (simp add: ctype_def)
    qed
    with other have ou: "other = u" by simp
    have "senderIsAdmin s w" using f adm by (simp add: senderIsAdmin_def getClient_simps)
    from guard [OF this] one(3) ou have g: "adminClient s \<noteq> None" "x \<notin> set (userQueue s)"
      by simp_all
    show ?thesis
    proof (rule queue_okI)
      show "distinct (userQueue ?s')" using D(1) g(2) by (simp add: uq one(3))
      show "\<exists>t. ctype ?s' q = Some t \<and> t \<noteq> Admin" if "q \<in> set (userQueue ?s')" for q
        using that D(2) [of q] one(2) by (auto simp: uq one(3) ct)
      show "map_of (activeChats ?s') q = None" if "q \<in> set (userQueue ?s')" for q
      proof (cases "q = x")
        case True
        then show ?thesis unfolding ac one(1) by (simp add: deleteChat_key)
      next
        case False
        with that D(3) [of q] show ?thesis by (simp add: uq one(3) keep)
      qed
      show "adminClient ?s' \<noteq> None" if "userQueue ?s' \<noteq> []"
        using g(1) by simp
    qed (rule E)
  qed
qed

lemma handleDisconnect_none:
  "x = None \<or> getClient s x = None \<Longrightarrow> handleDisconnect x s = s"
  by (cases x; cases "getClient s x") (auto simp: handleDisconnect_def getClient_simps)

lemma queue_ok_handleDisconnect:
  assumes reg: "reg_ok s" and ok: "queue_ok s"
  shows "queue_ok (handleDisconnect x s)"
proof (cases "x = None \<or> getClient s x = None")
  case True
  with ok show ?thesis by (simp add: handleDisconnect_none)
next
  case False
  then obtain cl c where x: "x = Some cl" and c: "map_of (clients s) cl = Some c"
    by (cases x) (auto simp: getClient_simps)
  let ?s' = "handleDisconnect x s"
  note D = queue_okD [OF ok]
  show ?thesis
  proof (cases "c_type c = Admin")
    case True
    then have "userQueue ?s' = []" "activeChats ?s' = []"
      using x c by (simp_all add: handleDisconnect_queue getClient_simps)
    then show ?thesis by (intro queue_okI) simp_all
  next
    case na: False
    have uq: "userQueue ?s' = remove1 cl (userQueue s)"
      and ac: "activeChats ?s' = (case map_of (activeChats s) cl of
                 None \<Rightarrow> activeChats s
               | Some p \<Rightarrow> AList.delete p (AList.delete cl (activeChats s)))"
      and ad: "adminClient ?s' = adminClient s"
      and ni: "nextId ?s' = nextId s"
      and cs: "clients ?s' = AList.delete cl (clients s)"
      using x c na by (simp_all add: handleDisconnect_queue handleDisconnect_reg getClient_simps)
    have ct: "ctype ?s' k = (if k = cl then None else ctype s k)" for k
      by (simp add: ctype_def cs delete_conv')
    have sub: "map_of (activeChats s) k = Some v \<and> k \<noteq> cl"
      if "map_of (activeChats ?s') k = Some v" for k v
      using that unfolding ac
      by (cases "map_of (activeChats s) cl") (auto simp: delete_conv' split: if_splits)
    have keep: "map_of (activeChats ?s') q = None" if "map_of (activeChats s) q = None" for q
      using that sub [of q] by (cases "map_of (activeChats ?s') q") auto
    have mem: "q \<in> set (userQueue s) \<and> q \<noteq> cl" if "q \<in> set (userQueue ?s')" for q
      using that D(1) by (simp add: uq set_remove1_eq)
    show ?thesis
    proof (rule queue_okI)
      show "distinct (userQueue ?s')" using D(1) by (simp add: uq)
      show "\<exists>t. ctype ?s' q = Some t \<and> t \<noteq> Admin" if "q \<in> set (userQueue ?s')" for q
        using mem [OF that] D(2) [of q] by (simp add: ct)
      show "map_of (activeChats ?s') q = None" if "q \<in> set (userQueue ?s')" for q
        using mem [OF that] D(3) [of q] by (simp add: keep)
      show "adminClient ?s' \<noteq> None" if "userQueue ?s' \<noteq> []"
      proof -
        from that have "userQueue s \<noteq> []" by (auto simp: uq)
        with D(4) show ?thesis by (simp add: ad)
      qed
      show "k < nextId ?s' \<and> v < nextId ?s' \<and> (ctype ?s' k = Some Admin \<or> ctype ?s' v \<noteq> Some User)"
        if "map_of (activeChats ?s') k = Some v" for k v
        using sub [OF that] D(5) [of k v] by (simp add: ct ni)
    qed
  qed
qed

lemma queue_ok_handleMessage:
  assumes reg: "reg_ok s" and ok: "queue_ok s" and "live s w" and g: "endchat_ok s (Recv w m)"
  shows "queue_ok (handleMessage w m s)"
proof (cases m)
  case (Join n t)
  then show ?thesis using reg ok by (simp add: queue_ok_handleJoin)
next
  case (SelectUser u)
  then show ?thesis using reg ok by (simp add: queue_ok_handleSelectUser)
next
  case (EndChat u)
  have "adminClient s \<noteq> None \<and> set (requeued s u) \<inter> set (userQueue s) = {}"
    if "senderIsAdmin s w" "requeued s u \<noteq> []"
    using g that \<open>live s w\<close> unfolding EndChat by (auto simp: list_ex_iff)
  with EndChat reg ok show ?thesis by (simp add: queue_ok_handleEndChat)
next
  case (Message d body ts)
  with ok show ?thesis by (elim queue_ok_cong) simp_all
next
  case (StartVideoStream u)
  with ok show ?thesis by (elim queue_ok_cong) simp_all
next
  case (StopVideoStream u)
  with ok show ?thesis by (elim queue_ok_cong) simp_all
next
  case (VideoFrame d f)
  with ok show ?thesis by (elim queue_ok_cong) simp_all
next
  case UnknownType
  with ok show ?thesis by simp
qed

lemma queue_ok_step:
  assumes reg: "reg_ok s" and ok: "queue_ok s" and g: "endchat_ok s e"
  shows "queue_ok (step s e)"
proof (cases e)
  case (Connect w)
  from ok show ?thesis unfolding Connect by (rule queue_ok_cong) (simp_all split: option.splits)
next
  case (Recv w m)
  with reg ok g show ?thesis by (simp add: queue_ok_handleMessage)
next
  case (Closing w)
  from ok show ?thesis unfolding Closing by (rule queue_ok_cong) simp_all
next
  case (Close w)
  have "queue_ok (setReadyState w CLOSED s)" using ok by (rule queue_ok_cong) simp_all
  moreover have "reg_ok (setReadyState w CLOSED s)" using reg by (rule reg_ok_cong) simp_all
  ultimately show ?thesis using Close ok by (simp add: queue_ok_handleDisconnect)
next
  case Tick
  from ok show ?thesis unfolding Tick by (rule queue_ok_cong) simp_all
qed

lemma queue_ok_guarded:
  "reg_ok s \<Longrightarrow> queue_ok s \<Longrightarrow> guarded s es \<Longrightarrow> queue_ok (foldl step s es)"
proof (induction es arbitrary: s)
  case Nil
  then show ?case by simp
next
  case (Cons e es)
  from Cons.prems have "reg_ok (step s e)" "queue_ok (step s e)" "guarded (step s e) es"
    by (simp_all add: reg_ok_step queue_ok_step)
  then show ?case using Cons.IH by simp
qed

lemma queue_ok_init: "queue_ok init"
  by (simp add: queue_ok_def init_def)

lemma reg_ok_init: "reg_ok init"
  by (simp add: init_def reg_ok_def)

text \<open>
  A participant who joins while no operator is registered is sent position 0 and is not
  queued, and nothing queues it when an operator joins later.
\<close>

lemma late_operator_not_queued:
  "userQueue (run late_operator_trace) = []
   \<and> adminClient (run late_operator_trace)
       = Some \<lparr>c_id = 2, c_ws = 1, c_username = ''op'', c_type = Admin\<rparr>
   \<and> map_of (clients (run late_operator_trace)) 1
       = Some \<lparr>c_id = 1, c_ws = 0, c_username = ''b'', c_type = User\<rparr>
   \<and> map_of (activeChats (run late_operator_trace)) 1 = None"
  unfolding late_operator_trace_def by code_simp

text \<open>
  What the code does maintain about the waiting queue. Take any sequence of events in
  which no connection of the operator role sends an \<^verbatim>\<open>endChat\<close> that re-queues a
  registered participant who is already queued, or does so while no operator is registered
  (\<open>guarded\<close>). In the state it reaches, the waiting queue has no duplicates, every queued
  identifier belongs to a registered connection that does not have the operator role and
  has no pairing entry under its own identifier (another connection's entry may still name
  it), and an operator is registered. The excluded event is the one that duplicates a
  queue entry.
\<close>

theorem guarded_queue_invariant:
  assumes "guarded init es"
  shows "distinct (userQueue (run es))
       \<and> (\<forall>q \<in> set (userQueue (run es)).
             (\<exists>c. map_of (clients (run es)) q = Some c \<and> c_type c \<noteq> Admin)
             \<and> map_of (activeChats (run es)) q = None
             \<and> adminClient (run es) \<noteq> None)"
proof -
  have ok: "queue_ok (run es)"
    unfolding run_def using reg_ok_init queue_ok_init assms by (rule queue_ok_guarded)
  note D = queue_okD [OF ok]
  have "(\<exists>c. map_of (clients (run es)) q = Some c \<and> c_type c \<noteq> Admin)
        \<and> map_of (activeChats (run es)) q = None \<and> adminClient (run es) \<noteq> None"
    if "q \<in> set (userQueue (run es))" for q
  proof -
    from that have "userQueue (run es) \<noteq> []" by auto
    with D(2) [OF that] D(3) [OF that] D(4) show ?thesis by (auto simp: ctype_def)
  qed
  with D(1) show ?thesis by blast
qed

theorem guarded_queue_invariant_witness:
  "guarded init requeue_trace
   \<and> userQueue (run requeue_trace) = [3, 2]
   \<and> distinct (userQueue (run requeue_trace))
   \<and> map_of (activeChats (run requeue_trace)) 2 = None
   \<and> adminClient (run requeue_trace) \<noteq> None"
proof -
  have h: "guarded init requeue_trace" unfolding requeue_trace_def by code_simp
  have q: "userQueue (run requeue_trace) = [3, 2]" unfolding requeue_trace_def by code_simp
  from guarded_queue_invariant [OF h]
  have d: "distinct (userQueue (run requeue_trace))"
    and a: "\<forall>q \<in> set (userQueue (run requeue_trace)).
             (\<exists>c. map_of (clients (run requeue_trace)) q = Some c \<and> c_type c \<noteq> Admin)
             \<and> map_of (activeChats (run requeue_trace)) q = None
             \<and> adminClient (run requeue_trace) \<noteq> None"
    by blast+
  have "2 \<in> set (userQueue (run requeue_trace))" by (simp add: q)
  with a have "map_of (activeChats (run requeue_trace)) 2 = None"
    and "adminClient (run requeue_trace) \<noteq> None" by blast+
  with h q d show ?thesis by blast
qed

section \<open>History and the pending slot, in general\<close>

text \<open>
  The parts of claim C7 that the code keeps. The stored history of a key only grows, one
  entry at a time, whatever the events; and a chat message between an operator-role
  identity and a participant is appended under the same key, operator first, whichever of
  the two sends it.
\<close>

lemma handleJoin_history [simp]: "chatHistory (handleJoin w n t s) = chatHistory s"
  by (simp add: handleJoin_def Let_def split: option.splits)

lemma handleDisconnect_history [simp]: "chatHistory (handleDisconnect x s) = chatHistory s"
  by (simp add: handleDisconnect_def Let_def split: option.splits)

lemma handleChatMessage_history:
  "history (handleChatMessage w d body ts s) k = history s k
   \<or> (\<exists>m. history (handleChatMessage w d body ts s) k = history s k @ [m])"
proof (cases "senderId s w")
  case None
  then show ?thesis by (simp add: handleChatMessage_def)
next
  case f: (Some fromId)
  show ?thesis
  proof (cases "map_of (clients s) fromId")
    case None
    with f show ?thesis by (simp add: handleChatMessage_def getClient_simps)
  next
    case fc: (Some fromClient)
    show ?thesis
    proof (cases d)
      case None
      with f fc show ?thesis by (simp add: handleChatMessage_def getClient_simps)
    next
      case t: (Some toId)
      show ?thesis
      proof (cases "map_of (clients s) toId")
        case None
        with f fc t show ?thesis by (simp add: handleChatMessage_def getClient_simps)
      next
        case (Some toClient)
        with f fc t show ?thesis
          by (simp add: handleChatMessage_def getClient_simps Let_def history_def update_conv')
      qed
    qed
  qed
qed

lemma chatHistory_handleMessage:
  "(\<And>d body ts. m \<noteq> Message d body ts) \<Longrightarrow> chatHistory (handleMessage w m s) = chatHistory s"
  by (cases m) (simp_all, blast)

lemma chatHistory_step:
  assumes "\<And>w d body ts. e \<noteq> Recv w (Message d body ts)"
  shows "chatHistory (step s e) = chatHistory s"
proof (cases e)
  case (Recv w m)
  with assms have "\<And>d body ts. m \<noteq> Message d body ts" by simp
  then show ?thesis unfolding Recv by (simp add: chatHistory_handleMessage)
qed (simp_all split: option.splits)

lemma history_step:
  "history (step s e) k = history s k \<or> (\<exists>m. history (step s e) k = history s k @ [m])"
proof (cases "\<exists>w d body ts. e = Recv w (Message d body ts)")
  case True
  then obtain w d body ts where "e = Recv w (Message d body ts)" by blast
  then show ?thesis using handleChatMessage_history [of w d body ts s k] by simp
next
  case False
  then have "chatHistory (step s e) = chatHistory s" by (intro chatHistory_step) blast
  then show ?thesis by (simp add: history_def)
qed

lemma history_grows: "\<exists>ys. history (foldl step s es) k = history s k @ ys"
proof (induction es arbitrary: s)
  case Nil
  then show ?case by simp
next
  case (Cons e es)
  from Cons.IH [of "step s e"] obtain ys
    where "history (foldl step (step s e) es) k = history (step s e) k @ ys" by blast
  with history_step [of s e k] show ?case by auto
qed

lemma chat_key_same_both_ways:
  assumes "senderId s wo = Some opId" "map_of (clients s) opId = Some oc" "c_type oc = Admin"
    and "senderId s wp = Some pId" "map_of (clients s) pId = Some pc" "c_type pc \<noteq> Admin"
  shows "history (handleChatMessage wo (Some pId) body ts s) (opId, pId)
           = history s (opId, pId) @ [\<lparr>h_from = c_username oc, h_text = body, h_timestamp = ts\<rparr>]"
    and "history (handleChatMessage wp (Some opId) body ts s) (opId, pId)
           = history s (opId, pId) @ [\<lparr>h_from = c_username pc, h_text = body, h_timestamp = ts\<rparr>]"
  using assms
  by (simp_all add: handleChatMessage_def getClient_simps Let_def history_def update_conv')

text \<open>
  The defect behind C7, for every reachable state: the last thing a successful
  \<open>handleSelectUser\<close> does is send the user list to the operator, so with the operator's
  socket open its pending slot ends up holding that user list and nothing else.
\<close>

lemma handleSelectUser_last_send:
  assumes "selectTarget s w u = Some (a, x)"
  shows "\<exists>t. handleSelectUser w u s = sendToClient a (UserList (userListOf t)) t
           \<and> clients t = clients s \<and> conns t = conns s
           \<and> (qlist_ok (messageQueues s) \<longrightarrow> qlist_ok (messageQueues t))"
proof -
  from assms obtain adm fromId sender userId user where
    f: "adminClient s = Some adm" "c_id adm = a" "senderId s w = Some fromId"
       "map_of (clients s) fromId = Some sender" "c_type sender = Admin"
       "u = Some x" "map_of (clients s) x = Some user" "c_type user = User"
    by (auto simp: selectTarget_def getClient_simps split: option.splits if_splits)
  let ?s2 = "s\<lparr>userQueue := remove1 x (userQueue s),
               activeChats := AList.update a x (AList.update x a (activeChats s))\<rparr>"
  let ?messages = "case map_of (chatHistory s) (a, x) of None \<Rightarrow> Fresh | Some h \<Rightarrow> Stored (a, x)"
  let ?t = "updateQueue (sendToClient x (ChatStarted a (c_username adm) (c_type adm) ?messages)
              (sendToClient a (ChatStarted x (c_username user) (c_type user) ?messages) ?s2))"
  have 1: "handleSelectUser w u s = updateUserList ?t"
    using f by (simp add: handleSelectUser_def getClient_simps Let_def)
  have "adminClient ?t = Some adm" using f by simp
  with 1 f(2) have 2: "handleSelectUser w u s = sendToClient a (UserList (userListOf ?t)) ?t"
    by (simp add: updateUserList_def)
  have 3: "clients ?t = clients s" and 4: "conns ?t = conns s" by simp_all
  have 5: "qlist_ok (messageQueues s) \<longrightarrow> qlist_ok (messageQueues ?t)" by simp
  show ?thesis
    by (rule exI [of _ ?t]) (intro conjI 2 3 4 5)
qed

lemma select_leaves_userList_for_operator:
  assumes sel: "selectTarget (run es) w u = Some (a, x)"
    and c: "map_of (clients (run es)) a = Some ac" "isOpen (run es) (c_ws ac)"
  shows "\<exists>l. map_of (messageQueues (handleSelectUser w u (run es))) a = Some [UserList l]"
proof -
  from handleSelectUser_last_send [OF sel] obtain t where
    t: "handleSelectUser w u (run es) = sendToClient a (UserList (userListOf t)) t"
       "clients t = clients (run es)" "conns t = conns (run es)"
       "qlist_ok (messageQueues (run es)) \<longrightarrow> qlist_ok (messageQueues t)"
    by (elim exE conjE)
  from t(4) qlist_ok_run [of es] have ok: "qlist_ok (messageQueues t)" by simp
  have "isOpen t (c_ws ac)" using c(2) t(3) by (simp add: isOpen_def)
  with c(1) t(2) ok
  have "map_of (messageQueues (sendToClient a (UserList (userListOf t)) t)) a
          = Some [UserList (userListOf t)]"
    by (intro sendToClient_slot) simp_all
  with t(1) show ?thesis by auto
qed

text \<open>
  The defect behind C6, for every reachable state: when a connection of the operator role
  disconnects, the pending slot of every registered participant with an open socket ends
  up holding the position-0 message alone, whatever was queued for it before.
\<close>

lemma sendAll_same_message_slot:
  assumes "qlist_ok (messageQueues t)" "map_of (clients t) k = Some c" "isOpen t (c_ws c)"
    and "\<not> priority m" "(k, m) \<in> set ms" "\<And>e. e \<in> set ms \<Longrightarrow> snd e = m"
  shows "map_of (messageQueues (sendAll ms t)) k = Some [m]"
  using assms
proof (induction ms arbitrary: t)
  case Nil
  then show ?case by simp
next
  case (Cons e ms)
  let ?t' = "sendToClient (fst e) (snd e) t"
  have t': "qlist_ok (messageQueues ?t')" "map_of (clients ?t') k = Some c" "isOpen ?t' (c_ws c)"
    using Cons.prems(1-3) by simp_all
  show ?case
  proof (cases "(k, m) \<in> set ms")
    case True
    with Cons.IH [OF t' Cons.prems(4)] Cons.prems(6) show ?thesis by simp
  next
    case False
    with Cons.prems(5) have e: "e = (k, m)" by simp
    have "k \<notin> fst ` set ms"
    proof
      assume "k \<in> fst ` set ms"
      then obtain e' where "e' \<in> set ms" "fst e' = k" by auto
      with Cons.prems(6) [of e'] have "(k, m) \<in> set ms" by (cases e') auto
      with False show False by simp
    qed
    then have "map_of (messageQueues (sendAll ms ?t')) k = map_of (messageQueues ?t') k"
      by (rule sendAll_other)
    also have "\<dots> = Some [m]"
      unfolding e using Cons.prems(1-4) by (simp add: sendToClient_slot)
    finally show ?thesis by simp
  qed
qed

lemma resetMsgs_mem:
  "map_of cs k = Some c \<Longrightarrow> c_type c = User \<Longrightarrow> k \<noteq> cl \<Longrightarrow> (k, QueuePosition 0) \<in> set (resetMsgs cl cs)"
  by (auto simp: resetMsgs_def dest!: map_of_SomeD intro!: bexI [of _ "(k, c)"])

lemma resetMsgs_snd: "e \<in> set (resetMsgs cl cs) \<Longrightarrow> snd e = QueuePosition 0"
  by (auto simp: resetMsgs_def split: if_splits)

lemma operator_disconnect_leaves_position:
  assumes a: "map_of (clients (run es)) cl = Some ac" "c_type ac = Admin"
    and p: "map_of (clients (run es)) k = Some pc" "c_type pc = User" "isOpen (run es) (c_ws pc)"
  shows "map_of (messageQueues (handleDisconnect (Some cl) (run es))) k = Some [QueuePosition 0]"
proof -
  let ?s = "run es"
  let ?s1 = "?s\<lparr>messageQueues := AList.delete cl (messageQueues ?s)\<rparr>"
  let ?sB = "sendAll (endedMsgs cl (activeChats ?s)) (?s1\<lparr>adminClient := None\<rparr>)"
  let ?sC = "?sB\<lparr>activeChats := [], userQueue := []\<rparr>"
  have ne: "k \<noteq> cl" using a p by auto
  have eq: "messageQueues (handleDisconnect (Some cl) ?s)
              = messageQueues (sendAll (resetMsgs cl (clients ?s)) ?sC)"
    using a by (simp add: handleDisconnect_def getClient_simps Let_def)
  have "qlist_ok (messageQueues ?s1)" using qlist_ok_run [of es] by (simp add: qlist_ok_delete)
  then have ok: "qlist_ok (messageQueues ?sC)" by simp
  have "isOpen ?sC (c_ws pc)" using p(3) by (simp add: isOpen_def)
  with ok p(1) have "map_of (messageQueues (sendAll (resetMsgs cl (clients ?s)) ?sC)) k
      = Some [QueuePosition 0]"
    by (intro sendAll_same_message_slot resetMsgs_mem [OF p(1,2) ne] resetMsgs_snd) simp_all
  with eq show ?thesis by simp
qed

end
